theory Spec2Isabelle
  imports Complex_Main "HOL-Library.Word" "HOL-Library.Multiset"
begin

unbundle bit_operations_syntax

section \<open>Python values\<close>

subsection \<open>Strings\<close>

text \<open>
  A Python \<open>str\<close> is a \<^typ>\<open>string\<close>: a list of characters, each one a code point in
  the range 0..255 (ASCII and the Latin-1 supplement).  \<open>len\<close> is \<^const>\<open>length\<close>.
\<close>

definition ord :: "char \<Rightarrow> int" where
  "ord c = int (of_char c)"

text \<open>\<open>s.startswith(p)\<close> and the substring test \<open>sub in s\<close>.\<close>

fun startswith :: "string \<Rightarrow> string \<Rightarrow> bool" where
  "startswith s [] = True"
| "startswith [] (p # ps) = False"
| "startswith (c # s) (p # ps) = (c = p \<and> startswith s ps)"

fun str_in :: "string \<Rightarrow> string \<Rightarrow> bool" where
  "str_in sub [] = (sub = [])"
| "str_in sub (c # s) = (startswith (c # s) sub \<or> str_in sub s)"

text \<open>
  The slice \<open>s[i:j]\<close> with Python's treatment of negative and out-of-range bounds.
\<close>

definition slice :: "'a list \<Rightarrow> int \<Rightarrow> int \<Rightarrow> 'a list" where
  "slice s i j =
     (let n = int (length s);
          lo = (if i < 0 then max (i + n) 0 else min i n);
          hi = (if j < 0 then max (j + n) 0 else min j n)
      in take (nat (hi - lo)) (drop (nat lo) s))"

text \<open>\<open>range(n)\<close> for an integer \<open>n\<close>: empty when \<open>n \<le> 0\<close>.\<close>

definition py_range :: "int \<Rightarrow> int list" where
  "py_range n = map int [0..<nat n]"

text \<open>
  \<open>str.lower()\<close> on the code points 0..255: the letters A-Z and the Latin-1 capitals
  U+00C0..U+00DE (the multiplication sign U+00D7 apart) move up by 32; nothing else changes.
\<close>

definition lower_char :: "char \<Rightarrow> char" where
  "lower_char c =
     (let n = (of_char c :: nat) in
      if (65 \<le> n \<and> n \<le> 90) \<or> (192 \<le> n \<and> n \<le> 222 \<and> n \<noteq> 215)
      then char_of (n + 32) else c)"

definition lower :: "string \<Rightarrow> string" where
  "lower s = map lower_char s"

text \<open>
  \<open>str.strip()\<close>: leading and trailing whitespace removed.  On the code points 0..255
  \<open>str.isspace\<close> holds for U+0009..U+000D, U+001C..U+0020, U+0085 and U+00A0.
\<close>

definition isspace :: "char \<Rightarrow> bool" where
  "isspace c =
     (let n = (of_char c :: nat) in
      (9 \<le> n \<and> n \<le> 13) \<or> (28 \<le> n \<and> n \<le> 32) \<or> n = 133 \<or> n = 160)"

definition strip :: "string \<Rightarrow> string" where
  "strip s = rev (dropWhile isspace (rev (dropWhile isspace s)))"

text \<open>The constants of the \<open>string\<close> module.\<close>

definition ascii_lowercase :: string where
  "ascii_lowercase = ''abcdefghijklmnopqrstuvwxyz''"

definition ascii_uppercase :: string where
  "ascii_uppercase = ''ABCDEFGHIJKLMNOPQRSTUVWXYZ''"

definition digits :: string where
  "digits = ''0123456789''"

definition punctuation :: string where
  "punctuation =
     ''!'' @ [CHR 0x22] @ ''#$%&'' @ [CHR 0x27] @ ''()*+,-./:;<=>?@['' @ [CHR 0x5C] @ '']^_`{|}~''"

subsection \<open>Exceptions\<close>

datatype exn =
    ValueError string
  | FileNotFoundError
  | IndexError
  | TypeError
  | RequestException
  | OverflowError

section \<open>core/entropy.py\<close>

text \<open>
  \<open>get_character_pool_size\<close>: each \<open>any(c in CLASS for c in password)\<close> is a
  \<^const>\<open>list_ex\<close> over the password of the one-character substring test.
\<close>

definition get_character_pool_size :: "string \<Rightarrow> int" where
  "get_character_pool_size password =
     (if password = [] then 0
      else
        (let pool_size = 0;
             pool_size = (if list_ex (\<lambda>c. str_in [c] ascii_lowercase) password
                          then pool_size + 26 else pool_size);
             pool_size = (if list_ex (\<lambda>c. str_in [c] ascii_uppercase) password
                          then pool_size + 26 else pool_size);
             pool_size = (if list_ex (\<lambda>c. str_in [c] digits) password
                          then pool_size + 10 else pool_size);
             pool_size = (if list_ex (\<lambda>c. str_in [c] punctuation) password
                          then pool_size + 32 else pool_size)
         in pool_size))"

text \<open>
  \<open>calculate_entropy\<close>.  The float result is modelled by the real number it approximates:
  \<open>math.log2(pool_size) * len(password)\<close> is \<^term>\<open>log 2 p * n\<close> over the reals.
\<close>

definition calculate_entropy :: "string \<Rightarrow> real \<times> int" where
  "calculate_entropy password =
     (if password = [] then (0, 0)
      else
        (let pool_size = get_character_pool_size password in
         if pool_size = 0 then (0, 0)
         else (log 2 (real_of_int pool_size) * real (length password), pool_size)))"

section \<open>utils/patterns.py\<close>

definition COMMON_PATTERNS :: "string list" where
  "COMMON_PATTERNS =
     [''password'', ''123456'', ''qwerty'', ''abc123'', ''letmein'', ''welcome'', ''monkey'',
      ''dragon'', ''master'', ''admin'', ''login'', ''passw0rd'', ''password1'', ''123456789'',
      ''12345678'', ''iloveyou'', ''princess'', ''trustno1'', ''superman'', ''baseball'']"

definition has_common_pattern :: "string \<Rightarrow> bool" where
  "has_common_pattern password =
     (if password = [] then False
      else
        (let password_lower = lower password in
         list_ex (\<lambda>pattern. str_in pattern password_lower) COMMON_PATTERNS))"

text \<open>
  The two inner loops of \<open>has_sequential_chars\<close> walk the adjacent pairs of the window and
  stop at the first pair that breaks the run.
\<close>

fun is_sequential :: "string \<Rightarrow> bool" where
  "is_sequential (a # b # rest) =
     (if ord b \<noteq> ord a + 1 then False else is_sequential (b # rest))"
| "is_sequential rest = True"

fun is_reverse_sequential :: "string \<Rightarrow> bool" where
  "is_reverse_sequential (a # b # rest) =
     (if ord b \<noteq> ord a - 1 then False else is_reverse_sequential (b # rest))"
| "is_reverse_sequential rest = True"

text \<open>The outer loop over the window start \<open>i\<close>, returning at the first run found.\<close>

fun scan_windows :: "string \<Rightarrow> int \<Rightarrow> int list \<Rightarrow> bool" where
  "scan_windows password min_length [] = False"
| "scan_windows password min_length (i # rest) =
     (let substring = slice password i (i + min_length) in
      if is_sequential substring then True
      else if is_reverse_sequential substring then True
      else scan_windows password min_length rest)"

definition has_sequential_chars :: "string \<Rightarrow> int \<Rightarrow> bool" where
  "has_sequential_chars password min_length =
     (if password = [] \<or> int (length password) < min_length then False
      else scan_windows password min_length (py_range (int (length password) - min_length + 1)))"

section \<open>utils/wordlist.py\<close>

text \<open>
  The module keeps the loaded wordlist in the global \<open>_WORDLIST_CACHE\<close> and reads the file
  \<open>data/common_passwords.txt\<close>.  Both are written out as state: the cache (\<open>None\<close> until
  the first successful load) and the file, given by the lines that iterating over it yields
  (\<open>None\<close> when the file does not exist).
\<close>

record wordlist_state =
  cache :: "string set option"
  data_file :: "string list option"

text \<open>
  The loop over the lines of the file: each line is stripped and lowercased, and the empty
  results are skipped.
\<close>

definition read_wordlist :: "string list \<Rightarrow> string set" where
  "read_wordlist lines = set (filter (\<lambda>word. word \<noteq> []) (map (\<lambda>line. lower (strip line)) lines))"

definition load_wordlist :: "wordlist_state \<Rightarrow> (exn + string set) \<times> wordlist_state" where
  "load_wordlist st =
     (case cache st of
        Some wordlist \<Rightarrow> (Inr wordlist, st)
      | None \<Rightarrow>
          (case data_file st of
             None \<Rightarrow> (Inl FileNotFoundError, st)
           | Some lines \<Rightarrow>
               (let wordlist = read_wordlist lines
                in (Inr wordlist, st\<lparr>cache := Some wordlist\<rparr>))))"

text \<open>
  \<open>contains_dictionary_word\<close>: only \<open>FileNotFoundError\<close> is caught around the load; any
  other exception would leave the function.
\<close>

definition contains_dictionary_word :: "wordlist_state \<Rightarrow> string \<Rightarrow> (exn + bool) \<times> wordlist_state" where
  "contains_dictionary_word st password =
     (if password = [] then (Inr False, st)
      else
        (case load_wordlist st of
           (Inl e, st') \<Rightarrow> (if e = FileNotFoundError then (Inr False, st') else (Inl e, st'))
         | (Inr wordlist, st') \<Rightarrow>
             (let password_lower = lower password in
              if password_lower \<in> wordlist then (Inr True, st')
              else if (\<exists>word \<in> wordlist. 4 \<le> length word \<and> str_in word password_lower)
                   then (Inr True, st')
              else (Inr False, st'))))"

section \<open>core/breach.py\<close>

subsection \<open>The library calls of \<open>_sha1_hash\<close>\<close>

type_synonym byte = "8 word"
type_synonym word32 = "32 word"

text \<open>\<open>str.encode('utf-8')\<close> on code points below 256: one byte below 128, two bytes from there.\<close>

definition encode_utf8 :: "string \<Rightarrow> byte list" where
  "encode_utf8 s =
     concat (map (\<lambda>c. let n = (of_char c :: nat) in
                        if n < 128 then [word_of_nat n]
                        else [word_of_nat (192 + n div 64), word_of_nat (128 + n mod 64)]) s)"

text \<open>
  \<open>hashlib.sha1\<close> is SHA-1 as FIPS 180-4 defines it.  The message is padded with the byte
  \<open>0x80\<close>, zero bytes up to 56 modulo 64 and the bit length as a 64-bit big-endian number;
  every 64-byte block is read as sixteen big-endian 32-bit words, expanded to eighty, and run
  through eighty rounds.
\<close>

definition rotl :: "nat \<Rightarrow> word32 \<Rightarrow> word32" where
  "rotl n w = push_bit n w OR drop_bit (32 - n) w"

definition be_bytes64 :: "64 word \<Rightarrow> byte list" where
  "be_bytes64 n =
     [ucast (drop_bit 56 n), ucast (drop_bit 48 n), ucast (drop_bit 40 n), ucast (drop_bit 32 n),
      ucast (drop_bit 24 n), ucast (drop_bit 16 n), ucast (drop_bit 8 n), ucast n]"

definition sha1_pad :: "byte list \<Rightarrow> byte list" where
  "sha1_pad m =
     m @ [0x80] @ replicate ((119 - length m mod 64) mod 64) 0 @ be_bytes64 (word_of_nat (8 * length m))"

fun be_word :: "byte list \<Rightarrow> word32" where
  "be_word [] = 0"
| "be_word (b # bs) = push_bit (8 * length bs) (ucast b) OR be_word bs"

fun chunks :: "nat \<Rightarrow> 'a list \<Rightarrow> 'a list list" where
  "chunks n [] = []"
| "chunks n (x # xs) = (if n = 0 then [] else take n (x # xs) # chunks n (drop n (x # xs)))"

text \<open>
  The message schedule, built newest word first: \<open>W\<^sub>t\<close> is the rotation by one of
  \<open>W\<^sub>t\<^sub>-\<^sub>3 XOR W\<^sub>t\<^sub>-\<^sub>8 XOR W\<^sub>t\<^sub>-\<^sub>1\<^sub>4 XOR W\<^sub>t\<^sub>-\<^sub>1\<^sub>6\<close>.
\<close>

fun schedule_rev :: "nat \<Rightarrow> word32 list \<Rightarrow> word32 list" where
  "schedule_rev 0 r = r"
| "schedule_rev (Suc n) r = schedule_rev n (rotl 1 (r ! 2 XOR r ! 7 XOR r ! 13 XOR r ! 15) # r)"

definition schedule :: "word32 list \<Rightarrow> word32 list" where
  "schedule w = rev (schedule_rev 64 (rev w))"

definition sha1_f :: "nat \<Rightarrow> word32 \<Rightarrow> word32 \<Rightarrow> word32 \<Rightarrow> word32" where
  "sha1_f t b c d =
     (if t < 20 then (b AND c) OR (NOT b AND d)
      else if t < 40 then b XOR c XOR d
      else if t < 60 then (b AND c) OR (b AND d) OR (c AND d)
      else b XOR c XOR d)"

definition sha1_k :: "nat \<Rightarrow> word32" where
  "sha1_k t =
     (if t < 20 then 0x5A827999 else if t < 40 then 0x6ED9EBA1
      else if t < 60 then 0x8F1BBCDC else 0xCA62C1D6)"

type_synonym sha1_state = "word32 \<times> word32 \<times> word32 \<times> word32 \<times> word32"

fun sha1_rounds :: "nat \<Rightarrow> word32 list \<Rightarrow> sha1_state \<Rightarrow> sha1_state" where
  "sha1_rounds t [] s = s"
| "sha1_rounds t (w # ws) (a, b, c, d, e) =
     sha1_rounds (t + 1) ws (rotl 5 a + sha1_f t b c d + e + sha1_k t + w, a, rotl 30 b, c, d)"

definition sha1_block :: "sha1_state \<Rightarrow> byte list \<Rightarrow> sha1_state" where
  "sha1_block h blk =
     (case h of (h0, h1, h2, h3, h4) \<Rightarrow>
        (case sha1_rounds 0 (schedule (map be_word (chunks 4 blk))) h of
           (a, b, c, d, e) \<Rightarrow> (h0 + a, h1 + b, h2 + c, h3 + d, h4 + e)))"

definition sha1_init :: sha1_state where
  "sha1_init = (0x67452301, 0xEFCDAB89, 0x98BADCFE, 0x10325476, 0xC3D2E1F0)"

definition word_bytes :: "word32 \<Rightarrow> byte list" where
  "word_bytes w = [ucast (drop_bit 24 w), ucast (drop_bit 16 w), ucast (drop_bit 8 w), ucast w]"

definition sha1 :: "byte list \<Rightarrow> byte list" where
  "sha1 m =
     (case foldl sha1_block sha1_init (chunks 64 (sha1_pad m)) of
        (a, b, c, d, e) \<Rightarrow> concat (map word_bytes [a, b, c, d, e]))"

text \<open>\<open>hexdigest()\<close>: two lowercase hexadecimal digits for each byte.\<close>

definition hexdigit :: "nat \<Rightarrow> char" where
  "hexdigit n = ''0123456789abcdef'' ! n"

definition hexdigest :: "byte list \<Rightarrow> string" where
  "hexdigest bs = concat (map (\<lambda>b. [hexdigit (unat b div 16), hexdigit (unat b mod 16)]) bs)"

text \<open>
  \<open>str.upper()\<close>, which the module applies to hexadecimal digests only: the letters a-z move
  down by 32.  (On other code points of the Latin-1 supplement \<open>str.upper\<close> leaves the range
  0..255; they do not occur in a digest.)
\<close>

definition upper_char :: "char \<Rightarrow> char" where
  "upper_char c =
     (let n = (of_char c :: nat) in if 97 \<le> n \<and> n \<le> 122 then char_of (n - 32) else c)"

definition upper :: "string \<Rightarrow> string" where
  "upper s = map upper_char s"

subsection \<open>The module\<close>

definition sha1_hash :: "string \<Rightarrow> string" where
  "sha1_hash password = upper (hexdigest (sha1 (encode_utf8 password)))"

text \<open>
  \<open>_api_request\<close> talks to the remote service, so its outcome is an input of the model:
  \<open>api n prefix timeout\<close> is what the \<open>n\<close>-th call made by one \<open>check_breach\<close> returns for
  that prefix and timeout, either the parsed list of \<open>(suffix, count)\<close> pairs or the exception
  it raises.  What \<open>check_breach\<close> does to the outside is recorded as a trace of the requests
  sent and the sleeps taken (the two warning lines printed after the last failure are not
  recorded).
\<close>

type_synonym api = "nat \<Rightarrow> string \<Rightarrow> int \<Rightarrow> exn + (string \<times> int) list"

datatype event = Request string int | Sleep int

text \<open>The scan of the returned pairs: the first pair with the local suffix decides.\<close>

fun find_suffix :: "(string \<times> int) list \<Rightarrow> string \<Rightarrow> bool \<times> int" where
  "find_suffix [] hash_suffix = (False, 0)"
| "find_suffix ((returned_suffix, cnt) # rest) hash_suffix =
     (if returned_suffix = hash_suffix then (True, cnt) else find_suffix rest hash_suffix)"

text \<open>
  \<open>time.sleep\<close> keeps the duration as a signed 64-bit count of nanoseconds and raises
  \<open>OverflowError\<close> for a duration beyond it (CPython 3.11): the longest sleep is 9223372036
  seconds, so \<open>time.sleep(2**attempt)\<close> raises from attempt 34 on.
\<close>

definition max_sleep_seconds :: int where
  "max_sleep_seconds = 9223372036"

text \<open>
  The loop \<open>for attempt in range(max_retries)\<close>.  Its result is \<open>Inr (Some t)\<close> for a returned
  tuple, \<open>Inr None\<close> when the loop ends without a \<open>return\<close> and the function returns Python's
  \<open>None\<close>, and \<open>Inl\<close> of the exception that leaves the function: the handler
  \<open>except Exception\<close> catches whatever the request and the scan raise, and nothing catches what
  the handler itself raises.
\<close>

fun retry_loop ::
  "api \<Rightarrow> string \<Rightarrow> string \<Rightarrow> int \<Rightarrow> int \<Rightarrow> int list
     \<Rightarrow> (exn + (bool \<times> int) option) \<times> event list" where
  "retry_loop api hash_prefix hash_suffix timeout max_retries [] = (Inr None, [])"
| "retry_loop api hash_prefix hash_suffix timeout max_retries (attempt # rest) =
     (case api (nat attempt) hash_prefix timeout of
        Inr suffixes \<Rightarrow> (Inr (Some (find_suffix suffixes hash_suffix)), [Request hash_prefix timeout])
      | Inl e \<Rightarrow>
          (if attempt < max_retries - 1
           then (let wait_time = 2 ^ nat attempt in
                 if wait_time > max_sleep_seconds
                 then (Inl OverflowError, [Request hash_prefix timeout])
                 else (case retry_loop api hash_prefix hash_suffix timeout max_retries rest of
                         (r, evs) \<Rightarrow> (r, Request hash_prefix timeout # Sleep wait_time # evs)))
           else (Inr (Some (False, 0)), [Request hash_prefix timeout])))"

definition check_breach ::
  "api \<Rightarrow> string \<Rightarrow> int \<Rightarrow> int \<Rightarrow> (exn + (bool \<times> int) option) \<times> event list" where
  "check_breach api password timeout max_retries =
     (if password = [] then (Inr (Some (False, 0)), [])
      else
        (let full_hash = sha1_hash password;
             hash_prefix = take 5 full_hash;
             hash_suffix = drop 5 full_hash
         in retry_loop api hash_prefix hash_suffix timeout max_retries (py_range max_retries)))"

section \<open>core/analyzer.py\<close>

text \<open>
  The criteria dictionary is an association list in insertion order; \<open>criteria.values()\<close> is
  the list of its second components.
\<close>

type_synonym criteria = "(string \<times> bool) list"

definition check_criteria :: "wordlist_state \<Rightarrow> string \<Rightarrow> (exn + criteria) \<times> wordlist_state" where
  "check_criteria st password =
     (case contains_dictionary_word st password of
        (Inl e, st') \<Rightarrow> (Inl e, st')
      | (Inr dictionary_word, st') \<Rightarrow>
          (Inr [(''min_length'', 12 \<le> length password),
                (''has_lowercase'', list_ex (\<lambda>c. str_in [c] ascii_lowercase) password),
                (''has_uppercase'', list_ex (\<lambda>c. str_in [c] ascii_uppercase) password),
                (''has_digits'', list_ex (\<lambda>c. str_in [c] digits) password),
                (''has_symbols'', list_ex (\<lambda>c. str_in [c] punctuation) password),
                (''no_common_patterns'', \<not> has_common_pattern password),
                (''no_dictionary_words'', \<not> dictionary_word),
                (''no_sequential_chars'', \<not> has_sequential_chars password 3)], st'))"

text \<open>
  \<open>calculate_strength_score\<close>.  The entropy is a real number; the comparisons with the
  integer thresholds are exact for a float as well.
\<close>

definition calculate_strength_score :: "criteria \<Rightarrow> real \<Rightarrow> int" where
  "calculate_strength_score criteria entropy =
     (let base_score = sum_list (map (\<lambda>passed. 10) (filter (\<lambda>passed. passed) (map snd criteria)));
          entropy_bonus =
            (if entropy \<ge> 70 then 20
             else if entropy \<ge> 60 then 15
             else if entropy \<ge> 50 then 10
             else if entropy \<ge> 40 then 5
             else 0);
          total_score = base_score + entropy_bonus
      in min total_score 100)"

text \<open>\<open>_determine_rating\<close>: the if/elif chain of the source, in its order.\<close>

definition determine_rating :: "int \<Rightarrow> string" where
  "determine_rating score =
     (if score < 40 then ''weak''
      else if score < 70 then ''moderate''
      else if score < 90 then ''strong''
      else ''very_strong'')"

text \<open>
  \<open>estimate_crack_time\<close> (core/entropy.py), which the orchestrator calls after the breach
  check and outside its \<open>try\<close>.  \<open>_format_time\<close> picks the unit by the if/elif chain of
  the source; its result is kept as the unit and the number to print, without the decimal
  rendering of the f-string.
\<close>

datatype duration =
    Instant
  | SecondsFine real
  | Seconds real
  | Minutes real
  | Hours real
  | Days real
  | Weeks real
  | Months real
  | Years real
  | Centuries real
  | Millennia real

definition format_time :: "real \<Rightarrow> duration" where
  "format_time seconds =
     (if seconds < 0.001 then Instant
      else if seconds < 1 then SecondsFine seconds
      else if seconds < 60 then Seconds seconds
      else if seconds < 3600 then Minutes (seconds / 60)
      else if seconds < 86400 then Hours (seconds / 3600)
      else if seconds < 604800 then Days (seconds / 86400)
      else if seconds < 2592000 then Weeks (seconds / 604800)
      else if seconds < 31536000 then Months (seconds / 2592000)
      else if seconds < 3153600000 then Years (seconds / 31536000)
      else if seconds < 31536000000 then Centuries (seconds / 3153600000)
      else Millennia (seconds / 31536000000))"

text \<open>
  \<open>combinations = 2**entropy_bits\<close> is a float power: it raises \<open>OverflowError\<close> when the
  result is beyond the largest float, which is the case exactly from 1024 bits on.  (The
  entropies that \<open>calculate_entropy\<close> returns are \<open>log2\<close> of one of the pool sizes times an
  integer length; none of them is within rounding distance of 1024.)
\<close>

record crack_time =
  online_attack_100_per_second :: duration
  offline_attack_10B_per_second :: duration

definition estimate_crack_time :: "real \<Rightarrow> exn + crack_time" where
  "estimate_crack_time bits =
     (if bits \<le> 0
      then Inr \<lparr>online_attack_100_per_second = Instant, offline_attack_10B_per_second = Instant\<rparr>
      else if bits \<ge> 1024 then Inl OverflowError
      else
        (let combinations = 2 powr bits;
             online_seconds = combinations / 100;
             offline_seconds = combinations / 10000000000
         in Inr \<lparr>online_attack_100_per_second = format_time online_seconds,
                  offline_attack_10B_per_second = format_time offline_seconds\<rparr>))"

text \<open>
  The result record.  The field \<open>recommendations\<close> of the dataclass is left out: the list
  is computed from the other fields by \<open>get_recommendations\<close>, which has no \<open>raise\<close> and
  changes none of them.
\<close>

record breach_status =
  checked :: bool
  found :: bool
  occurrence_count :: int

record password_analysis =
  password_hash :: string
  timestamp :: string
  strength_score :: int
  strength_rating :: string
  length' :: nat
  entropy_bits :: real
  character_pool_size :: int
  criteria_met :: criteria
  breach_status :: breach_status
  estimated_crack_time :: crack_time

text \<open>
  \<open>analyze_password\<close> calls the breach client inside \<open>try ... except Exception\<close>.  The
  client is a parameter here, so that every outcome of the call is covered: a returned tuple,
  a raised exception, and a returned \<open>None\<close>, whose unpacking raises \<open>TypeError\<close> inside the
  same \<open>try\<close>.  The SHA-256 fingerprint and the clock are inputs as well.  An exception of
  \<open>estimate_crack_time\<close> is not caught and ends the analysis without a record.
\<close>

type_synonym breach_client = "string \<Rightarrow> exn + (bool \<times> int) option"

definition not_checked :: breach_status where
  "not_checked = \<lparr>checked = False, found = False, occurrence_count = 0\<rparr>"

definition analyze_password_with ::
  "breach_client \<Rightarrow> (string \<Rightarrow> string) \<Rightarrow> string \<Rightarrow> wordlist_state \<Rightarrow> string \<Rightarrow> bool
     \<Rightarrow> (exn + password_analysis) \<times> wordlist_state" where
  "analyze_password_with client sha256_hexdigest now st password check_breach_status =
     (case calculate_entropy password of (entropy, pool_size) \<Rightarrow>
        (case check_criteria st password of
           (Inl e, st') \<Rightarrow> (Inl e, st')
         | (Inr criteria, st') \<Rightarrow>
             (let score = calculate_strength_score criteria entropy;
                  rating = determine_rating score;
                  status =
                    (if check_breach_status
                     then (case client password of
                             Inr (Some (is_breached, breach_count)) \<Rightarrow>
                               \<lparr>checked = True, found = is_breached, occurrence_count = breach_count\<rparr>
                           | Inr None \<Rightarrow> not_checked
                           | Inl e \<Rightarrow> not_checked)
                     else not_checked)
              in (case estimate_crack_time entropy of
                    Inl e \<Rightarrow> (Inl e, st')
                  | Inr crack \<Rightarrow>
                      (Inr \<lparr>password_hash = sha256_hexdigest password,
                             timestamp = now,
                             strength_score = score,
                             strength_rating = rating,
                             length' = length password,
                             entropy_bits = entropy,
                             character_pool_size = pool_size,
                             criteria_met = criteria,
                             breach_status = status,
                             estimated_crack_time = crack\<rparr>, st')))))"

text \<open>The function as the module has it: the client is \<open>check_breach\<close> with its defaults.\<close>

definition analyze_password ::
  "api \<Rightarrow> (string \<Rightarrow> string) \<Rightarrow> string \<Rightarrow> wordlist_state \<Rightarrow> string \<Rightarrow> bool
     \<Rightarrow> (exn + password_analysis) \<times> wordlist_state" where
  "analyze_password api =
     analyze_password_with (\<lambda>password. fst (check_breach api password 10 3))"

section \<open>core/generator.py\<close>

definition LOWERCASE :: string where
  "LOWERCASE = ascii_lowercase"

definition UPPERCASE :: string where
  "UPPERCASE = ascii_uppercase"

definition DIGITS :: string where
  "DIGITS = digits"

definition SYMBOLS :: string where
  "SYMBOLS = punctuation"

definition AMBIGUOUS :: string where
  "AMBIGUOUS = ''0O1lI''"

text \<open>
  The operating system's random source is an input: an arbitrary sequence of numbers and the
  count of those already drawn.  \<open>randbelow n\<close> reduces the next number into \<open>[0, n)\<close>, so
  every index can come out and no other.
\<close>

record rng =
  draws :: "nat \<Rightarrow> nat"
  drawn :: nat

definition randbelow :: "nat \<Rightarrow> rng \<Rightarrow> nat \<times> rng" where
  "randbelow n g = (draws g (drawn g) mod n, g\<lparr>drawn := drawn g + 1\<rparr>)"

text \<open>\<open>secrets.choice(seq)\<close> raises \<open>IndexError\<close> on an empty sequence.\<close>

definition choice :: "string \<Rightarrow> rng \<Rightarrow> (exn + char) \<times> rng" where
  "choice seq g =
     (if seq = [] then (Inl IndexError, g)
      else (case randbelow (length seq) g of (i, g') \<Rightarrow> (Inr (seq ! i), g')))"

text \<open>
  \<open>SystemRandom().shuffle(x)\<close>: for \<open>i\<close> from \<open>len(x) - 1\<close> down to 1, exchange \<open>x[i]\<close> with
  \<open>x[j]\<close> for a random \<open>j \<le> i\<close>.
\<close>

fun shuffle_loop :: "nat list \<Rightarrow> 'a list \<Rightarrow> rng \<Rightarrow> 'a list \<times> rng" where
  "shuffle_loop [] x g = (x, g)"
| "shuffle_loop (i # rest) x g =
     (case randbelow (i + 1) g of (j, g') \<Rightarrow> shuffle_loop rest (x[i := x ! j, j := x ! i]) g')"

definition shuffle :: "'a list \<Rightarrow> rng \<Rightarrow> 'a list \<times> rng" where
  "shuffle x g = shuffle_loop (rev [1..<length x]) x g"

text \<open>
  The \<open>length\<close> argument is any Python object: an \<open>int\<close> (a \<open>bool\<close> is the integer 0 or 1),
  or an object for which \<open>isinstance(length, int)\<close> is false.
\<close>

datatype py_object = PyInt int | NotInt

text \<open>
  One \<open>if use_...:\<close> block: the class alphabet \<open>chars\<close> joins the pool and one character
  drawn from it joins the required characters.
\<close>

definition use_class ::
  "bool \<Rightarrow> string \<Rightarrow> string \<times> string \<Rightarrow> rng \<Rightarrow> (exn + string \<times> string) \<times> rng" where
  "use_class selected chars acc g =
     (case acc of (char_pool, required_chars) \<Rightarrow>
        if selected
        then (case choice chars g of
                (Inl e, g') \<Rightarrow> (Inl e, g')
              | (Inr c, g') \<Rightarrow> (Inr (char_pool @ chars, required_chars @ [c]), g'))
        else (Inr acc, g))"

definition unambiguous :: "bool \<Rightarrow> string \<Rightarrow> string" where
  "unambiguous avoid_ambiguous chars =
     (if avoid_ambiguous then filter (\<lambda>c. \<not> str_in [c] AMBIGUOUS) chars else chars)"

text \<open>The loop \<open>for _ in range(remaining_length)\<close>.\<close>

fun fill :: "int list \<Rightarrow> string \<Rightarrow> string \<Rightarrow> rng \<Rightarrow> (exn + string) \<times> rng" where
  "fill [] char_pool password_chars g = (Inr password_chars, g)"
| "fill (i # rest) char_pool password_chars g =
     (case choice char_pool g of
        (Inl e, g') \<Rightarrow> (Inl e, g')
      | (Inr c, g') \<Rightarrow> fill rest char_pool (password_chars @ [c]) g')"

definition build_pool ::
  "bool \<Rightarrow> bool \<Rightarrow> bool \<Rightarrow> bool \<Rightarrow> bool \<Rightarrow> rng \<Rightarrow> (exn + string \<times> string) \<times> rng" where
  "build_pool use_lowercase use_uppercase use_digits use_symbols avoid_ambiguous g =
     (case use_class use_lowercase (unambiguous avoid_ambiguous LOWERCASE) ([], []) g of
        (Inl e, g1) \<Rightarrow> (Inl e, g1)
      | (Inr acc1, g1) \<Rightarrow>
     (case use_class use_uppercase (unambiguous avoid_ambiguous UPPERCASE) acc1 g1 of
        (Inl e, g2) \<Rightarrow> (Inl e, g2)
      | (Inr acc2, g2) \<Rightarrow>
     (case use_class use_digits (unambiguous avoid_ambiguous DIGITS) acc2 g2 of
        (Inl e, g3) \<Rightarrow> (Inl e, g3)
      | (Inr acc3, g3) \<Rightarrow> use_class use_symbols SYMBOLS acc3 g3)))"

definition generate_password ::
  "py_object \<Rightarrow> bool \<Rightarrow> bool \<Rightarrow> bool \<Rightarrow> bool \<Rightarrow> bool \<Rightarrow> rng \<Rightarrow> (exn + string) \<times> rng" where
  "generate_password len use_lowercase use_uppercase use_digits use_symbols avoid_ambiguous g =
     (case len of
        NotInt \<Rightarrow> (Inl (ValueError ''Length must be an integer''), g)
      | PyInt n \<Rightarrow>
          if n < 8 then (Inl (ValueError ''Password length must be at least 8 characters''), g)
          else if n > 128 then (Inl (ValueError ''Password length must not exceed 128 characters''), g)
          else
            (case build_pool use_lowercase use_uppercase use_digits use_symbols avoid_ambiguous g of
               (Inl e, g') \<Rightarrow> (Inl e, g')
             | (Inr (char_pool, required_chars), g') \<Rightarrow>
                 if char_pool = [] then (Inl (ValueError ''At least one character set must be selected''), g')
                 else
                   (let remaining_length = n - int (length required_chars) in
                    case fill (py_range remaining_length) char_pool required_chars g' of
                      (Inl e, g'') \<Rightarrow> (Inl e, g'')
                    | (Inr password_chars, g'') \<Rightarrow>
                        (case shuffle password_chars g'' of
                           (shuffled, g''') \<Rightarrow> (Inr shuffled, g''')))))"

section \<open>Specification-side definitions\<close>

text \<open>
  The character classes as the specification names them, by code point: the lowercase
  letters a-z, the uppercase letters A-Z, the digits 0-9 and the ASCII punctuation
  characters (the four code-point blocks between the other classes).
\<close>

definition lowercase_letter :: "char \<Rightarrow> bool" where
  "lowercase_letter c \<longleftrightarrow> 97 \<le> ord c \<and> ord c \<le> 122"

definition uppercase_letter :: "char \<Rightarrow> bool" where
  "uppercase_letter c \<longleftrightarrow> 65 \<le> ord c \<and> ord c \<le> 90"

definition decimal_digit :: "char \<Rightarrow> bool" where
  "decimal_digit c \<longleftrightarrow> 48 \<le> ord c \<and> ord c \<le> 57"

definition ascii_punctuation :: "char \<Rightarrow> bool" where
  "ascii_punctuation c \<longleftrightarrow>
     (33 \<le> ord c \<and> ord c \<le> 47) \<or> (58 \<le> ord c \<and> ord c \<le> 64) \<or>
     (91 \<le> ord c \<and> ord c \<le> 96) \<or> (123 \<le> ord c \<and> ord c \<le> 126)"

text \<open>The pool size of the specification: the sum of the sizes of the classes present.\<close>

definition active_class_sizes :: "string \<Rightarrow> int" where
  "active_class_sizes password =
     (if \<exists>c \<in> set password. lowercase_letter c then 26 else 0)
     + (if \<exists>c \<in> set password. uppercase_letter c then 26 else 0)
     + (if \<exists>c \<in> set password. decimal_digit c then 10 else 0)
     + (if \<exists>c \<in> set password. ascii_punctuation c then 32 else 0)"

text \<open>The entropy bonus of the specification's scoring rule.\<close>

definition entropy_bonus_tier :: "real \<Rightarrow> int" where
  "entropy_bonus_tier bits =
     (if bits \<ge> 70 then 20 else if bits \<ge> 60 then 15 else if bits \<ge> 50 then 10
      else if bits \<ge> 40 then 5 else 0)"

text \<open>
  The invariant of the wordlist module's state, for a file that does not change while the
  process runs: the cache is empty until the first successful load, and afterwards it holds
  what was read from the file.
\<close>

definition cache_consistent :: "wordlist_state \<Rightarrow> bool" where
  "cache_consistent st =
     (case cache st of
        None \<Rightarrow> True
      | Some wordlist \<Rightarrow>
          (case data_file st of None \<Rightarrow> False | Some lines \<Rightarrow> wordlist = read_wordlist lines))"

text \<open>
  What the specification's retry policy does to the outside when all \<open>n\<close> attempts fail: a
  request per attempt, and between consecutive attempts a sleep of 2 to the power of the
  attempt number (1s, 2s, 4s, ...).
\<close>

definition backoff_trace :: "string \<Rightarrow> int \<Rightarrow> nat \<Rightarrow> event list" where
  "backoff_trace prefix timeout n =
     concat (map (\<lambda>attempt. [Request prefix timeout, Sleep (2 ^ attempt)]) [0..<n - 1])
     @ [Request prefix timeout]"

text \<open>
  Two remote services to run the breach client against, as the test suite mocks them: one
  that answers every request with the same list, and one whose every request fails.
\<close>

definition responds_with :: "(string \<times> int) list \<Rightarrow> api" where
  "responds_with suffixes = (\<lambda>n prefix timeout. Inr suffixes)"

definition always_fails :: api where
  "always_fails = (\<lambda>n prefix timeout. Inl RequestException)"

text \<open>
  The alphabet a generator request may draw from: the selected classes, the alphanumeric
  ones without the ambiguous characters when that flag is set.
\<close>

definition selected_pool :: "bool \<Rightarrow> bool \<Rightarrow> bool \<Rightarrow> bool \<Rightarrow> bool \<Rightarrow> string" where
  "selected_pool use_lowercase use_uppercase use_digits use_symbols avoid_ambiguous =
     (if use_lowercase then unambiguous avoid_ambiguous LOWERCASE else [])
     @ (if use_uppercase then unambiguous avoid_ambiguous UPPERCASE else [])
     @ (if use_digits then unambiguous avoid_ambiguous DIGITS else [])
     @ (if use_symbols then SYMBOLS else [])"

section \<open>Properties\<close>

subsection \<open>Strings and character classes\<close>

lemma startswith_iff: "startswith s p \<longleftrightarrow> (\<exists>post. s = p @ post)"
  by (induction s p rule: startswith.induct) auto

lemma str_in_iff: "str_in sub s \<longleftrightarrow> (\<exists>pre post. s = pre @ sub @ post)"
proof (induction s)
  case Nil
  then show ?case by auto
next
  case (Cons c s)
  show ?case
  proof
    assume "str_in sub (c # s)"
    then consider "startswith (c # s) sub" | "str_in sub s" by auto
    then show "\<exists>pre post. c # s = pre @ sub @ post"
    proof cases
      case 1
      then obtain post where "c # s = sub @ post" by (auto simp: startswith_iff)
      then have "c # s = [] @ sub @ post" by simp
      then show ?thesis by blast
    next
      case 2
      then obtain pre post where "s = pre @ sub @ post" using Cons.IH by blast
      then have "c # s = (c # pre) @ sub @ post" by simp
      then show ?thesis by blast
    qed
  next
    assume "\<exists>pre post. c # s = pre @ sub @ post"
    then obtain pre post where eq: "c # s = pre @ sub @ post" by blast
    show "str_in sub (c # s)"
    proof (cases pre)
      case Nil
      with eq have "startswith (c # s) sub" by (auto simp: startswith_iff)
      then show ?thesis by simp
    next
      case (Cons a pre')
      with eq have "s = pre' @ sub @ post" by simp
      then have "str_in sub s" using Cons.IH by blast
      then show ?thesis by simp
    qed
  qed
qed

lemma str_in_single: "str_in [c] s \<longleftrightarrow> c \<in> set s"
  by (induction s) auto

lemma char_in_set_iff: "c \<in> set s \<longleftrightarrow> (of_char c :: nat) \<in> set (map of_char s)"
  by (auto simp: image_iff)

lemma code_range_iff:
  "(of_char c :: nat) \<in> set [a..<Suc b] \<longleftrightarrow> int a \<le> ord c \<and> ord c \<le> int b"
  unfolding ord_def by (simp only: set_upt atLeastLessThan_iff) linarith

lemma in_ascii_lowercase: "c \<in> set ascii_lowercase \<longleftrightarrow> lowercase_letter c"
proof -
  have "map of_char ascii_lowercase = ([97..<Suc 122] :: nat list)"
    by (simp add: ascii_lowercase_def upt_rec)
  then have "c \<in> set ascii_lowercase \<longleftrightarrow> (of_char c :: nat) \<in> set [97..<Suc 122]"
    by (metis char_in_set_iff)
  then show ?thesis
    unfolding lowercase_letter_def code_range_iff by simp
qed

lemma in_ascii_uppercase: "c \<in> set ascii_uppercase \<longleftrightarrow> uppercase_letter c"
proof -
  have "map of_char ascii_uppercase = ([65..<Suc 90] :: nat list)"
    by (simp add: ascii_uppercase_def upt_rec)
  then have "c \<in> set ascii_uppercase \<longleftrightarrow> (of_char c :: nat) \<in> set [65..<Suc 90]"
    by (metis char_in_set_iff)
  then show ?thesis
    unfolding uppercase_letter_def code_range_iff by simp
qed

lemma in_digits: "c \<in> set digits \<longleftrightarrow> decimal_digit c"
proof -
  have "map of_char digits = ([48..<Suc 57] :: nat list)"
    by (simp add: digits_def upt_rec)
  then have "c \<in> set digits \<longleftrightarrow> (of_char c :: nat) \<in> set [48..<Suc 57]"
    by (metis char_in_set_iff)
  then show ?thesis
    unfolding decimal_digit_def code_range_iff by simp
qed

lemma in_punctuation: "c \<in> set punctuation \<longleftrightarrow> ascii_punctuation c"
proof -
  have "map of_char punctuation =
          ([33..<Suc 47] @ [58..<Suc 64] @ [91..<Suc 96] @ [123..<Suc 126] :: nat list)"
    by (simp add: punctuation_def upt_rec)
  then have "c \<in> set punctuation \<longleftrightarrow>
      (of_char c :: nat) \<in> set ([33..<Suc 47] @ [58..<Suc 64] @ [91..<Suc 96] @ [123..<Suc 126])"
    by (metis char_in_set_iff)
  then show ?thesis
    unfolding ascii_punctuation_def set_append Un_iff code_range_iff by simp
qed

subsection \<open>Pool size and entropy\<close>

lemma get_character_pool_size_active:
  "get_character_pool_size password = active_class_sizes password"
  by (cases "password = []")
    (simp_all add: get_character_pool_size_def active_class_sizes_def Let_def list_ex_iff
      str_in_single in_ascii_lowercase in_ascii_uppercase in_digits in_punctuation)

text \<open>
  Claim C3.  For every password the pool size is the sum of the sizes of the classes that
  occur in it: 26 for a lowercase letter, 26 for an uppercase letter, 10 for a digit and 32
  for an ASCII punctuation character, each counted once however often the class occurs.
  The entropy function returns \<open>(log2(pool) * length, pool)\<close>, and \<open>(0, 0)\<close> for the empty
  password and for a password whose pool size is 0.
\<close>

theorem pool_size_and_entropy:
  "get_character_pool_size password = active_class_sizes password
   \<and> calculate_entropy password =
       (if password = [] \<or> active_class_sizes password = 0 then (0, 0)
        else (log 2 (real_of_int (active_class_sizes password)) * real (length password),
              active_class_sizes password))"
  by (simp add: calculate_entropy_def Let_def get_character_pool_size_active)

theorem pool_size_and_entropy_witness:
  "get_character_pool_size ''P@ssw0rd!'' = 94
   \<and> calculate_entropy ''P@ssw0rd!'' = (log 2 94 * 9, 94)
   \<and> get_character_pool_size ''aaa'' = 26
   \<and> calculate_entropy [CHR 0xE9] = (0, 0)
   \<and> calculate_entropy [] = (0, 0)"
  using pool_size_and_entropy [of "''P@ssw0rd!''"] pool_size_and_entropy [of "''aaa''"]
    pool_size_and_entropy [of "[CHR 0xE9]"] pool_size_and_entropy [of "[]"]
  by (simp add: active_class_sizes_def lowercase_letter_def uppercase_letter_def
      decimal_digit_def ascii_punctuation_def ord_def)

subsection \<open>Score and rating\<close>

lemma base_score_count:
  "sum_list (map (\<lambda>passed. 10) (filter (\<lambda>passed. passed) (map snd criteria)))
     = 10 * int (length (filter snd criteria))"
  by (induction criteria) auto

lemma filter_all: "(\<forall>x \<in> set xs. P x) \<Longrightarrow> filter P xs = xs"
  by (induction xs) auto

lemma filter_none: "(\<forall>x \<in> set xs. \<not> P x) \<Longrightarrow> filter P xs = []"
  by (induction xs) auto

text \<open>
  Claim C1.  For every criteria mapping and every entropy value the score is
  \<open>min(base + bonus, 100)\<close>, where the base is 10 times the number of criteria met and the
  bonus is 20 from 70 bits, 15 from 60, 10 from 50, 5 from 40 and 0 below.  With eight
  criteria all met and at least 70 bits the score is 100; with no criterion met and at most
  0 bits it is 0; with no criterion met and 45, 55, 65, 75 bits it is 5, 10, 15, 20.
\<close>

theorem calculate_strength_score_formula:
  "calculate_strength_score criteria entropy =
     min (10 * int (length (filter snd criteria)) + entropy_bonus_tier entropy) 100
   \<and> (length criteria = 8 \<and> (\<forall>kv \<in> set criteria. snd kv) \<and> entropy \<ge> 70
        \<longrightarrow> calculate_strength_score criteria entropy = 100)
   \<and> ((\<forall>kv \<in> set criteria. \<not> snd kv) \<and> entropy \<le> 0
        \<longrightarrow> calculate_strength_score criteria entropy = 0)
   \<and> ((\<forall>kv \<in> set criteria. \<not> snd kv)
        \<longrightarrow> calculate_strength_score criteria 45 = 5
          \<and> calculate_strength_score criteria 55 = 10
          \<and> calculate_strength_score criteria 65 = 15
          \<and> calculate_strength_score criteria 75 = 20)"
proof -
  have formula: "calculate_strength_score criteria e =
      min (10 * int (length (filter snd criteria)) + entropy_bonus_tier e) 100" for e
    by (simp only: calculate_strength_score_def Let_def base_score_count entropy_bonus_tier_def)
  have all_met: "calculate_strength_score criteria entropy = 100"
    if "length criteria = 8" "\<forall>kv \<in> set criteria. snd kv" "entropy \<ge> 70"
  proof -
    have "filter snd criteria = criteria" using that(2) by (rule filter_all)
    then show ?thesis using that(1,3) by (simp add: formula entropy_bonus_tier_def)
  qed
  have none_met: "calculate_strength_score criteria e = entropy_bonus_tier e"
    if "\<forall>kv \<in> set criteria. \<not> snd kv" for e
  proof -
    have "filter snd criteria = []" using that by (rule filter_none)
    then show ?thesis by (simp add: formula entropy_bonus_tier_def)
  qed
  show ?thesis
    using formula [of entropy] all_met none_met
    by (simp add: entropy_bonus_tier_def)
qed

theorem calculate_strength_score_formula_witness:
  "calculate_strength_score
     [(''min_length'', True), (''has_lowercase'', True), (''has_uppercase'', True),
      (''has_digits'', True), (''has_symbols'', True), (''no_common_patterns'', True),
      (''no_dictionary_words'', True), (''no_sequential_chars'', True)] 80 = 100
   \<and> calculate_strength_score
     [(''min_length'', False), (''has_lowercase'', False), (''has_uppercase'', False),
      (''has_digits'', False), (''has_symbols'', False), (''no_common_patterns'', False),
      (''no_dictionary_words'', False), (''no_sequential_chars'', False)] 0 = 0
   \<and> calculate_strength_score
     [(''min_length'', False), (''has_lowercase'', False), (''has_uppercase'', False),
      (''has_digits'', False), (''has_symbols'', False), (''no_common_patterns'', False),
      (''no_dictionary_words'', False), (''no_sequential_chars'', False)] 45 = 5"
  using calculate_strength_score_formula
      [of "[(''min_length'', True), (''has_lowercase'', True), (''has_uppercase'', True),
            (''has_digits'', True), (''has_symbols'', True), (''no_common_patterns'', True),
            (''no_dictionary_words'', True), (''no_sequential_chars'', True)]" 80]
    calculate_strength_score_formula
      [of "[(''min_length'', False), (''has_lowercase'', False), (''has_uppercase'', False),
            (''has_digits'', False), (''has_symbols'', False), (''no_common_patterns'', False),
            (''no_dictionary_words'', False), (''no_sequential_chars'', False)]" 0]
  by simp

text \<open>
  Claim C2.  For every integer score the rating is \<open>weak\<close> below 40, \<open>moderate\<close> from 40
  up to 69, \<open>strong\<close> from 70 up to 89 and \<open>very_strong\<close> from 90 on; the six boundary
  scores 39, 40, 69, 70, 89 and 90 fall on the sides the specification lists.
\<close>

theorem determine_rating_thresholds:
  "(score < 40 \<longrightarrow> determine_rating score = ''weak'')
   \<and> (40 \<le> score \<and> score < 70 \<longrightarrow> determine_rating score = ''moderate'')
   \<and> (70 \<le> score \<and> score < 90 \<longrightarrow> determine_rating score = ''strong'')
   \<and> (90 \<le> score \<longrightarrow> determine_rating score = ''very_strong'')
   \<and> determine_rating 39 = ''weak''
   \<and> determine_rating 40 = ''moderate''
   \<and> determine_rating 69 = ''moderate''
   \<and> determine_rating 70 = ''strong''
   \<and> determine_rating 89 = ''strong''
   \<and> determine_rating 90 = ''very_strong''"
  by (simp add: determine_rating_def)

theorem determine_rating_thresholds_witness:
  "determine_rating 10 = ''weak'' \<and> determine_rating 55 = ''moderate''
   \<and> determine_rating 80 = ''strong'' \<and> determine_rating 95 = ''very_strong''"
  using determine_rating_thresholds [of 10] determine_rating_thresholds [of 55]
    determine_rating_thresholds [of 80] determine_rating_thresholds [of 95]
  by simp

subsection \<open>Sequential characters\<close>

lemma scan_windows_iff:
  "scan_windows password m idxs \<longleftrightarrow>
     (\<exists>i \<in> set idxs. is_sequential (slice password i (i + m)) \<or> is_reverse_sequential (slice password i (i + m)))"
  by (induction idxs) (auto simp: Let_def)

lemma py_range_ex: "(\<exists>i \<in> set (py_range k). P i) \<longleftrightarrow> (\<exists>j. int j < k \<and> P (int j))"
proof -
  have "(\<exists>i \<in> set (py_range k). P i) \<longleftrightarrow> (\<exists>x < nat k. P (int x))"
    by (auto simp: py_range_def)
  moreover have "\<And>x. x < nat k \<longleftrightarrow> int x < k" by linarith
  ultimately show ?thesis by simp
qed

lemma is_sequential_3:
  "is_sequential [a, b, c] \<longleftrightarrow> ord b = ord a + 1 \<and> ord c = ord b + 1"
  by simp

lemma is_reverse_sequential_3:
  "is_reverse_sequential [a, b, c] \<longleftrightarrow> ord b = ord a - 1 \<and> ord c = ord b - 1"
  by simp

lemma slice_window:
  assumes "i + 3 \<le> length s"
  shows "slice s (int i) (int i + 3) = [s ! i, s ! (i + 1), s ! (i + 2)]"
proof -
  have "slice s (int i) (int i + 3) = take 3 (drop i s)"
    using assms by (simp add: slice_def Let_def min_def)
  also have "\<dots> = [s ! i, s ! (i + 1), s ! (i + 2)]"
  proof -
    have "length (drop i s) \<ge> 3" using assms by simp
    then obtain a b c rest where d: "drop i s = a # b # c # rest"
      by (metis Suc_le_length_iff numeral_3_eq_3)
    have "a = drop i s ! 0" "b = drop i s ! 1" "c = drop i s ! 2" using d by simp_all
    then have "a = s ! i" "b = s ! (i + 1)" "c = s ! (i + 2)" using assms by simp_all
    with d show ?thesis by simp
  qed
  finally show ?thesis .
qed

lemma has_sequential_chars_windows:
  assumes "3 \<le> length password"
  shows "has_sequential_chars password 3 \<longleftrightarrow>
     (\<exists>i. i + 3 \<le> length password \<and>
        ((ord (password ! (i + 1)) = ord (password ! i) + 1 \<and>
          ord (password ! (i + 2)) = ord (password ! (i + 1)) + 1) \<or>
         (ord (password ! (i + 1)) = ord (password ! i) - 1 \<and>
          ord (password ! (i + 2)) = ord (password ! (i + 1)) - 1)))"
    (is "?L \<longleftrightarrow> ?R")
proof -
  let ?n = "length password"
  have ne: "password \<noteq> []" using assms by auto
  have "?L \<longleftrightarrow> (\<exists>i. int i < int ?n - 3 + 1 \<and> (is_sequential (slice password (int i) (int i + 3)) \<or>
            is_reverse_sequential (slice password (int i) (int i + 3))))"
    using assms ne unfolding has_sequential_chars_def scan_windows_iff py_range_ex by simp
  also have "\<dots> \<longleftrightarrow> (\<exists>i < ?n - 2. is_sequential (slice password (int i) (int i + 3)) \<or>
            is_reverse_sequential (slice password (int i) (int i + 3)))"
  proof -
    have "\<And>i. int i < int ?n - 3 + 1 \<longleftrightarrow> i < ?n - 2" using assms by linarith
    then show ?thesis by simp
  qed
  also have "\<dots> \<longleftrightarrow> (\<exists>i. i + 3 \<le> ?n \<and> (is_sequential [password ! i, password ! (i + 1), password ! (i + 2)] \<or>
            is_reverse_sequential [password ! i, password ! (i + 1), password ! (i + 2)]))"
  proof -
    have "\<And>i. i < ?n - 2 \<longleftrightarrow> i + 3 \<le> ?n" using assms by arith
    then show ?thesis by (metis slice_window)
  qed
  also have "\<dots> \<longleftrightarrow> ?R" by (simp only: is_sequential_3 is_reverse_sequential_3)
  finally show ?thesis .
qed

text \<open>
  Claim C7.  For every password of at least 3 characters, \<open>has_sequential_chars\<close> with the
  default run length 3 is true exactly when some window of 3 consecutive characters has each
  adjacent pair rising by exactly 1 in code point, or each adjacent pair falling by exactly 1.
  Nothing restricts the characters to letters or digits.  It holds of \<open>abc\<close> and \<open>cba\<close> and
  not of \<open>a1b2c3\<close>.
\<close>

theorem has_sequential_chars_default:
  "(3 \<le> length password \<longrightarrow>
      (has_sequential_chars password 3 \<longleftrightarrow>
         (\<exists>i. i + 3 \<le> length password \<and>
            ((ord (password ! (i + 1)) = ord (password ! i) + 1 \<and>
              ord (password ! (i + 2)) = ord (password ! (i + 1)) + 1) \<or>
             (ord (password ! (i + 1)) = ord (password ! i) - 1 \<and>
              ord (password ! (i + 2)) = ord (password ! (i + 1)) - 1)))))
   \<and> has_sequential_chars ''abc'' 3
   \<and> has_sequential_chars ''cba'' 3
   \<and> \<not> has_sequential_chars ''a1b2c3'' 3"
proof -
  have "has_sequential_chars ''abc'' 3 \<and> has_sequential_chars ''cba'' 3
        \<and> \<not> has_sequential_chars ''a1b2c3'' 3"
    by (simp add: has_sequential_chars_def py_range_def slice_def ord_def upt_rec)
  then show ?thesis using has_sequential_chars_windows [of password] by blast
qed

theorem has_sequential_chars_default_witness:
  "3 \<le> length ''9:;x'' \<and> has_sequential_chars ''9:;x'' 3
   \<and> (\<exists>i. i + 3 \<le> length ''9:;x'' \<and>
          ((ord (''9:;x'' ! (i + 1)) = ord (''9:;x'' ! i) + 1 \<and>
            ord (''9:;x'' ! (i + 2)) = ord (''9:;x'' ! (i + 1)) + 1) \<or>
           (ord (''9:;x'' ! (i + 1)) = ord (''9:;x'' ! i) - 1 \<and>
            ord (''9:;x'' ! (i + 2)) = ord (''9:;x'' ! (i + 1)) - 1)))"
proof -
  have len: "3 \<le> length ''9:;x''" by simp
  have run: "has_sequential_chars ''9:;x'' 3"
    by (simp add: has_sequential_chars_def py_range_def slice_def ord_def upt_rec)
  from has_sequential_chars_default [of "''9:;x''"] len run show ?thesis by blast
qed

subsection \<open>Dictionary check\<close>

lemma lower_Nil: "lower [] = []"
  by (simp add: lower_def)

lemma read_wordlist_nonempty: "[] \<notin> read_wordlist lines"
  by (simp add: read_wordlist_def)

lemma load_wordlist_consistent:
  assumes "cache_consistent st"
  shows "load_wordlist st =
           (case data_file st of
              None \<Rightarrow> (Inl FileNotFoundError, st)
            | Some lines \<Rightarrow> (Inr (read_wordlist lines), st\<lparr>cache := Some (read_wordlist lines)\<rparr>))"
proof (cases "cache st")
  case None
  then show ?thesis by (simp add: load_wordlist_def Let_def split: option.splits)
next
  case (Some wordlist)
  with assms obtain lines where f: "data_file st = Some lines" and w: "wordlist = read_wordlist lines"
    by (auto simp: cache_consistent_def split: option.splits)
  have "st\<lparr>cache := Some (read_wordlist lines)\<rparr> = st" using Some w by simp
  then show ?thesis using Some f w by (simp add: load_wordlist_def)
qed

text \<open>
  Claim C8.  The dictionary check lowercases the password and returns true exactly when the
  lowercased password is a wordlist entry or contains a wordlist entry of at least 4
  characters as a substring; when the wordlist file is missing it returns false and raises
  nothing.  The state invariant is kept.
\<close>

theorem contains_dictionary_word_lookup:
  assumes "cache_consistent st"
  shows "(\<forall>lines. data_file st = Some lines \<longrightarrow>
            fst (contains_dictionary_word st password) =
              Inr (lower password \<in> read_wordlist lines \<or>
                   (\<exists>word \<in> read_wordlist lines. 4 \<le> length word \<and>
                      (\<exists>pre post. lower password = pre @ word @ post))))
         \<and> (data_file st = None \<longrightarrow> contains_dictionary_word st password = (Inr False, st))
         \<and> cache_consistent (snd (contains_dictionary_word st password))"
proof (cases "password = []")
  case True
  then show ?thesis
    using assms read_wordlist_nonempty
    by (auto simp: contains_dictionary_word_def lower_Nil)
next
  case False
  show ?thesis
  proof (cases "data_file st")
    case None
    then show ?thesis
      using assms False
      by (simp add: contains_dictionary_word_def load_wordlist_consistent)
  next
    case (Some lines)
    have "cache_consistent (st\<lparr>cache := Some (read_wordlist lines)\<rparr>)"
      using Some by (simp add: cache_consistent_def)
    then show ?thesis
      using assms False Some
      by (simp add: contains_dictionary_word_def load_wordlist_consistent Let_def str_in_iff)
  qed
qed

theorem contains_dictionary_word_lookup_witness:
  "cache_consistent \<lparr>cache = None, data_file = Some [''password'', '' Dragon '', '''', ''abc'']\<rparr>
   \<and> fst (contains_dictionary_word
        \<lparr>cache = None, data_file = Some [''password'', '' Dragon '', '''', ''abc'']\<rparr> ''MyDRAGON42'')
       = Inr True
   \<and> cache_consistent \<lparr>cache = None, data_file = None\<rparr>
   \<and> contains_dictionary_word \<lparr>cache = None, data_file = None\<rparr> ''password''
       = (Inr False, \<lparr>cache = None, data_file = None\<rparr>)"
proof -
  let ?st = "\<lparr>cache = None, data_file = Some [''password'', '' Dragon '', '''', ''abc'']\<rparr>"
  let ?off = "\<lparr>cache = None, data_file = None\<rparr>"
  have c1: "cache_consistent ?st" and c2: "cache_consistent ?off"
    by (simp_all add: cache_consistent_def)
  have entry: "''dragon'' \<in> read_wordlist [''password'', '' Dragon '', '''', ''abc'']"
    by (simp add: read_wordlist_def lower_def lower_char_def strip_def isspace_def char_of_def bit_0)
  have sub: "lower ''MyDRAGON42'' = ''my'' @ ''dragon'' @ ''42''"
    by (simp add: lower_def lower_char_def char_of_def bit_0)
  have "\<exists>pre post. lower ''MyDRAGON42'' = pre @ ''dragon'' @ post"
    using sub by blast
  then have "4 \<le> length ''dragon'' \<and> (\<exists>pre post. lower ''MyDRAGON42'' = pre @ ''dragon'' @ post)"
    by simp
  with entry have ex: "\<exists>word \<in> read_wordlist [''password'', '' Dragon '', '''', ''abc''].
      4 \<le> length word \<and> (\<exists>pre post. lower ''MyDRAGON42'' = pre @ word @ post)"
    by (rule rev_bexI)
  have "fst (contains_dictionary_word ?st ''MyDRAGON42'') = Inr True"
    using contains_dictionary_word_lookup [OF c1, of "''MyDRAGON42''"] ex by simp
  moreover have "contains_dictionary_word ?off ''password'' = (Inr False, ?off)"
    using contains_dictionary_word_lookup [OF c2, of "''password''"] by simp
  ultimately show ?thesis using c1 c2 by simp
qed

subsection \<open>Breach client: the retry loop\<close>

lemma sleep_allowed: "attempt \<le> 33 \<Longrightarrow> \<not> (2 :: int) ^ attempt > max_sleep_seconds"
proof -
  assume "attempt \<le> 33"
  then have "(2 :: int) ^ attempt \<le> 2 ^ 33" by (intro power_increasing) simp_all
  then show ?thesis by (simp add: max_sleep_seconds_def)
qed

lemma retry_loop_all_fail:
  assumes "k < n" and "\<forall>i. k \<le> i \<and> i < n \<longrightarrow> isl (api i prefix timeout)" and "n \<le> 35"
  shows "retry_loop api prefix suffix timeout (int n) (map int [k..<n]) =
           (Inr (Some (False, 0)),
            concat (map (\<lambda>attempt. [Request prefix timeout, Sleep (2 ^ attempt)]) [k..<n - 1])
            @ [Request prefix timeout])"
  using assms
proof (induction "n - k" arbitrary: k)
  case 0
  then show ?case by simp
next
  case (Suc d)
  from Suc.prems obtain e where fail: "api k prefix timeout = Inl e"
    by (metis isl_def le_refl)
  have upt: "[k..<n] = k # [Suc k..<n]" using Suc.prems(1) by (simp add: upt_rec)
  show ?case
  proof (cases "Suc k < n")
    case True
    have d: "d = n - Suc k" using Suc.hyps(2) by simp
    have rest: "retry_loop api prefix suffix timeout (int n) (map int [Suc k..<n]) =
           (Inr (Some (False, 0)),
            concat (map (\<lambda>attempt. [Request prefix timeout, Sleep (2 ^ attempt)]) [Suc k..<n - 1])
            @ [Request prefix timeout])"
      using Suc.hyps(1) [OF d True] Suc.prems(2,3) by simp
    have upt': "[k..<n - Suc 0] = k # [Suc k..<n - Suc 0]" using True by (simp add: upt_rec)
    have "k \<le> 33" using True Suc.prems(3) by simp
    then have ok: "\<not> (2 :: int) ^ k > max_sleep_seconds" by (rule sleep_allowed)
    show ?thesis
      using True ok by (simp add: upt upt' fail rest Let_def)
  next
    case False
    then have last: "n = Suc k" using Suc.prems(1) by simp
    show ?thesis by (simp add: last fail)
  qed
qed

lemma retry_loop_success:
  assumes "k \<le> j" and "j < n"
    and "\<forall>i. k \<le> i \<and> i < j \<longrightarrow> isl (api i prefix timeout)"
    and "api j prefix timeout = Inr suffixes" and "j \<le> 34"
  shows "retry_loop api prefix suffix timeout (int n) (map int [k..<n]) =
           (Inr (Some (find_suffix suffixes suffix)),
            concat (map (\<lambda>attempt. [Request prefix timeout, Sleep (2 ^ attempt)]) [k..<j])
            @ [Request prefix timeout])"
  using assms
proof (induction "j - k" arbitrary: k)
  case 0
  then have kj: "k = j" by simp
  have upt: "[j..<n] = j # [Suc j..<n]" using 0 by (simp add: upt_rec)
  show ?case using 0 by (simp add: kj upt)
next
  case (Suc d)
  then have lt: "k < j" by simp
  from Suc.prems lt obtain e where fail: "api k prefix timeout = Inl e"
    by (metis isl_def le_refl)
  have upt: "[k..<n] = k # [Suc k..<n]" using lt Suc.prems(2) by (simp add: upt_rec)
  have upt': "[k..<j] = k # [Suc k..<j]" using lt by (simp add: upt_rec)
  have d: "d = j - Suc k" using Suc.hyps(2) by simp
  have rest: "retry_loop api prefix suffix timeout (int n) (map int [Suc k..<n]) =
           (Inr (Some (find_suffix suffixes suffix)),
            concat (map (\<lambda>attempt. [Request prefix timeout, Sleep (2 ^ attempt)]) [Suc k..<j])
            @ [Request prefix timeout])"
    using Suc.hyps(1) [OF d] lt Suc.prems by simp
  have "k \<le> 33" using lt Suc.prems(5) by simp
  then have ok: "\<not> (2 :: int) ^ k > max_sleep_seconds" by (rule sleep_allowed)
  have "int k < int n - 1" using lt Suc.prems(2) by linarith
  then show ?case using ok by (simp add: upt upt' fail rest Let_def)
qed

lemma py_range_int: "py_range (int n) = map int [0..<n]"
  by (simp add: py_range_def)

lemma check_breach_all_fail:
  assumes "password \<noteq> []" and "0 < n" and "n \<le> 35"
    and "\<forall>i < n. isl (api i (take 5 (sha1_hash password)) timeout)"
  shows "check_breach api password timeout (int n) =
           (Inr (Some (False, 0)), backoff_trace (take 5 (sha1_hash password)) timeout n)"
  using assms retry_loop_all_fail [of 0 n api "take 5 (sha1_hash password)" timeout "drop 5 (sha1_hash password)"]
  by (simp add: check_breach_def Let_def py_range_int backoff_trace_def)

lemma check_breach_success:
  assumes "password \<noteq> []" and "j < n"
    and "\<forall>i < j. isl (api i (take 5 (sha1_hash password)) timeout)"
    and "api j (take 5 (sha1_hash password)) timeout = Inr suffixes" and "j \<le> 34"
  shows "check_breach api password timeout (int n) =
           (Inr (Some (find_suffix suffixes (drop 5 (sha1_hash password)))),
            concat (map (\<lambda>attempt. [Request (take 5 (sha1_hash password)) timeout, Sleep (2 ^ attempt)]) [0..<j])
            @ [Request (take 5 (sha1_hash password)) timeout])"
  using assms retry_loop_success [of 0 j n api "take 5 (sha1_hash password)" timeout suffixes "drop 5 (sha1_hash password)"]
  by (simp add: check_breach_def Let_def py_range_int)

subsection \<open>Orchestrator: the breach status\<close>

lemma contains_dictionary_word_returns:
  "\<exists>b st'. contains_dictionary_word st password = (Inr b, st')"
  by (auto simp: contains_dictionary_word_def load_wordlist_def Let_def split: option.splits)

lemma check_criteria_returns:
  "\<exists>criteria st'. check_criteria st password = (Inr criteria, st')"
proof -
  obtain b st' where "contains_dictionary_word st password = (Inr b, st')"
    using contains_dictionary_word_returns by blast
  then show ?thesis by (simp add: check_criteria_def)
qed

lemma active_class_sizes_bounds:
  "0 \<le> active_class_sizes password \<and> active_class_sizes password \<le> 94"
  by (simp add: active_class_sizes_def)

lemma log2_pool_bound:
  assumes "0 < p" and "p \<le> (94::int)"
  shows "log 2 (real_of_int p) < 7"
proof -
  have "real_of_int p < 2 powr 7" using assms by simp
  then show ?thesis using assms by (simp add: log_less_iff)
qed

lemma calculate_entropy_active:
  "calculate_entropy password =
     (if password = [] \<or> active_class_sizes password = 0 then (0, 0)
      else (log 2 (real_of_int (active_class_sizes password)) * real (length password),
            active_class_sizes password))"
  by (simp add: calculate_entropy_def Let_def get_character_pool_size_active)

lemma entropy_below_overflow:
  assumes "length password \<le> 146"
  shows "fst (calculate_entropy password) < 1024"
proof (cases "password = [] \<or> active_class_sizes password = 0")
  case True
  then show ?thesis using calculate_entropy_active [of password] by auto
next
  case False
  let ?p = "active_class_sizes password"
  have p: "0 < ?p" "?p \<le> 94" using False active_class_sizes_bounds [of password] by auto
  have "fst (calculate_entropy password) = log 2 (real_of_int ?p) * real (length password)"
    using False calculate_entropy_active [of password] by simp
  also have "\<dots> \<le> 7 * real (length password)"
    using log2_pool_bound [OF p] by (simp add: mult_right_mono)
  also have "\<dots> \<le> 7 * 146" using assms by simp
  finally show ?thesis by simp
qed

lemma estimate_crack_time_cases:
  "(bits < 1024 \<longrightarrow> (\<exists>crack. estimate_crack_time bits = Inr crack))
   \<and> (1024 \<le> bits \<longrightarrow> estimate_crack_time bits = Inl OverflowError)"
  by (simp add: estimate_crack_time_def Let_def)

lemma analyze_password_with_status:
  "(fst (calculate_entropy password) < 1024 \<longrightarrow>
      (\<exists>a st'. analyze_password_with client sha256_hexdigest now st password check_breach_status = (Inr a, st')))
   \<and> (1024 \<le> fst (calculate_entropy password) \<longrightarrow>
      (\<exists>st'. analyze_password_with client sha256_hexdigest now st password check_breach_status
               = (Inl OverflowError, st')))
   \<and> (\<forall>a st'. analyze_password_with client sha256_hexdigest now st password check_breach_status = (Inr a, st')
        \<longrightarrow> breach_status a =
          (if check_breach_status
           then (case client password of
                   Inr (Some (is_breached, breach_count)) \<Rightarrow>
                     \<lparr>checked = True, found = is_breached, occurrence_count = breach_count\<rparr>
                 | Inr None \<Rightarrow> not_checked
                 | Inl e \<Rightarrow> not_checked)
           else not_checked))"
proof -
  obtain criteria st1 where c: "check_criteria st password = (Inr criteria, st1)"
    using check_criteria_returns by blast
  obtain entropy pool_size where e: "calculate_entropy password = (entropy, pool_size)"
    by (cases "calculate_entropy password")
  show ?thesis
  proof (cases "entropy < 1024")
    case True
    then obtain crack where "estimate_crack_time entropy = Inr crack"
      using estimate_crack_time_cases [of entropy] by blast
    then show ?thesis
      using True by (simp add: analyze_password_with_def c e Let_def)
  next
    case False
    then have "estimate_crack_time entropy = Inl OverflowError"
      using estimate_crack_time_cases [of entropy] by simp
    then show ?thesis
      using False by (simp add: analyze_password_with_def c e Let_def)
  qed
qed

text \<open>
  Claim C9.  In every record that \<open>analyze_password\<close> produces, \<open>found\<close> implies \<open>checked\<close>.
  When the breach check is disabled, or the client raises an exception (or returns no tuple),
  the record says not checked, not found, count 0.  With the module's own client the same
  \<open>found = False\<close>, \<open>occurrence_count = 0\<close> holds when the check is disabled, when it is skipped
  for the empty password, and when all three request attempts fail.  A record is produced
  whenever the entropy is below 1024 bits, which covers every password of up to 146
  characters; from 1024 bits on \<open>estimate_crack_time\<close> raises \<open>OverflowError\<close> and there is no
  record.
\<close>

theorem breach_status_found_implies_checked:
  "(\<forall>a st'. analyze_password_with client sha256_hexdigest now st password check_breach_status = (Inr a, st')
         \<longrightarrow> (found (breach_status a) \<longrightarrow> checked (breach_status a))
           \<and> (\<not> check_breach_status \<or> (\<exists>e. client password = Inl e) \<or> client password = Inr None
                \<longrightarrow> \<not> checked (breach_status a) \<and> \<not> found (breach_status a)
                    \<and> occurrence_count (breach_status a) = 0))
   \<and> (\<forall>a st'. analyze_password api sha256_hexdigest now st password check_breach_status = (Inr a, st')
         \<longrightarrow> (found (breach_status a) \<longrightarrow> checked (breach_status a))
           \<and> (\<not> check_breach_status \<or> password = []
                  \<or> (\<forall>i < 3. isl (api i (take 5 (sha1_hash password)) 10))
                \<longrightarrow> \<not> found (breach_status a) \<and> occurrence_count (breach_status a) = 0))
   \<and> (fst (calculate_entropy password) < 1024 \<or> length password \<le> 146 \<longrightarrow>
        (\<exists>a st'. analyze_password_with client sha256_hexdigest now st password check_breach_status = (Inr a, st')))
   \<and> (1024 \<le> fst (calculate_entropy password) \<longrightarrow>
        (\<exists>st'. analyze_password_with client sha256_hexdigest now st password check_breach_status
                 = (Inl OverflowError, st')))"
proof -
  have general: "(found (breach_status a) \<longrightarrow> checked (breach_status a))
           \<and> (\<not> cbs \<or> (\<exists>e. c password = Inl e) \<or> c password = Inr None
                \<longrightarrow> \<not> checked (breach_status a) \<and> \<not> found (breach_status a)
                    \<and> occurrence_count (breach_status a) = 0)
           \<and> (c password = Inr (Some (False, 0))
                \<longrightarrow> \<not> found (breach_status a) \<and> occurrence_count (breach_status a) = 0)"
    if "analyze_password_with c sha256_hexdigest now st password cbs = (Inr a, st')"
    for c cbs a st'
  proof -
    have "breach_status a =
          (if cbs
           then (case c password of
                   Inr (Some (is_breached, breach_count)) \<Rightarrow>
                     \<lparr>checked = True, found = is_breached, occurrence_count = breach_count\<rparr>
                 | Inr None \<Rightarrow> not_checked
                 | Inl e \<Rightarrow> not_checked)
           else not_checked)"
      using analyze_password_with_status [of password c sha256_hexdigest now st cbs] that by blast
    then show ?thesis
      by (auto simp: not_checked_def split: sum.splits option.splits)
  qed
  have own: "fst (check_breach api password 10 3) = Inr (Some (False, 0))"
    if "password = [] \<or> (\<forall>i < 3. isl (api i (take 5 (sha1_hash password)) 10))"
  proof (cases "password = []")
    case True
    then show ?thesis by (simp add: check_breach_def)
  next
    case False
    with that have "\<forall>i < 3. isl (api i (take 5 (sha1_hash password)) 10)" by simp
    then show ?thesis
      using check_breach_all_fail [of password 3 api 10] False by simp
  qed
  have produced: "\<exists>a st'. analyze_password_with client sha256_hexdigest now st password check_breach_status = (Inr a, st')"
    if "fst (calculate_entropy password) < 1024 \<or> length password \<le> 146"
  proof -
    from that have "fst (calculate_entropy password) < 1024"
      using entropy_below_overflow by blast
    then show ?thesis
      using analyze_password_with_status [of password client sha256_hexdigest now st check_breach_status]
      by blast
  qed
  have overflow: "\<exists>st'. analyze_password_with client sha256_hexdigest now st password check_breach_status
                 = (Inl OverflowError, st')"
    if "1024 \<le> fst (calculate_entropy password)"
    using that analyze_password_with_status [of password client sha256_hexdigest now st check_breach_status]
    by blast
  show ?thesis
  proof (intro conjI allI impI)
    fix a st'
    assume r: "analyze_password_with client sha256_hexdigest now st password check_breach_status = (Inr a, st')"
    from general [OF r] show "checked (breach_status a)" if "found (breach_status a)"
      using that by blast
    from general [OF r] show "\<not> checked (breach_status a)" "\<not> found (breach_status a)"
        "occurrence_count (breach_status a) = 0"
      if "\<not> check_breach_status \<or> (\<exists>e. client password = Inl e) \<or> client password = Inr None"
      using that by blast+
  next
    fix a st'
    assume r: "analyze_password api sha256_hexdigest now st password check_breach_status = (Inr a, st')"
    then have r': "analyze_password_with (\<lambda>password. fst (check_breach api password 10 3))
                     sha256_hexdigest now st password check_breach_status = (Inr a, st')"
      by (simp add: analyze_password_def)
    from general [OF r'] show "checked (breach_status a)" if "found (breach_status a)"
      using that by blast
    show "\<not> found (breach_status a)" "occurrence_count (breach_status a) = 0"
      if h: "\<not> check_breach_status \<or> password = []
                  \<or> (\<forall>i < 3. isl (api i (take 5 (sha1_hash password)) 10))"
    proof -
      have "\<not> check_breach_status \<or> fst (check_breach api password 10 3) = Inr (Some (False, 0))"
        using h own by auto
      then have "\<not> found (breach_status a) \<and> occurrence_count (breach_status a) = 0"
        using general [OF r'] by auto
      then show "\<not> found (breach_status a)" "occurrence_count (breach_status a) = 0"
        by simp_all
    qed
  next
    assume "fst (calculate_entropy password) < 1024 \<or> length password \<le> 146"
    then show "\<exists>a st'. analyze_password_with client sha256_hexdigest now st password check_breach_status = (Inr a, st')"
      by (rule produced)
  next
    assume "1024 \<le> fst (calculate_entropy password)"
    then show "\<exists>st'. analyze_password_with client sha256_hexdigest now st password check_breach_status
                 = (Inl OverflowError, st')"
      by (rule overflow)
  qed
qed

theorem breach_status_found_implies_checked_witness:
  "(\<exists>a st'. analyze_password_with (\<lambda>p. Inl RequestException) (\<lambda>p. ''fingerprint'') ''2026-01-01T00:00:00''
        \<lparr>cache = None, data_file = None\<rparr> ''password'' True = (Inr a, st')
      \<and> \<not> checked (breach_status a) \<and> \<not> found (breach_status a)
      \<and> occurrence_count (breach_status a) = 0)
   \<and> (\<exists>a st'. analyze_password (\<lambda>i prefix timeout. Inr []) (\<lambda>p. ''fingerprint'') ''2026-01-01T00:00:00''
        \<lparr>cache = None, data_file = None\<rparr> [] True = (Inr a, st')
      \<and> \<not> found (breach_status a) \<and> occurrence_count (breach_status a) = 0)"
proof -
  have s1: "length ''password'' \<le> 146" and s2: "length ([] :: string) \<le> 146" by simp_all
  obtain a st' where r: "analyze_password_with (\<lambda>p. Inl RequestException) (\<lambda>p. ''fingerprint'')
        ''2026-01-01T00:00:00'' \<lparr>cache = None, data_file = None\<rparr> ''password'' True = (Inr a, st')"
    using breach_status_found_implies_checked
      [of "\<lambda>p. Inl RequestException" "\<lambda>p. ''fingerprint''" "''2026-01-01T00:00:00''"
          "\<lparr>cache = None, data_file = None\<rparr>" "''password''" True "\<lambda>i prefix timeout. Inr []"] s1
    by blast
  have p1: "\<not> checked (breach_status a) \<and> \<not> found (breach_status a) \<and> occurrence_count (breach_status a) = 0"
    using breach_status_found_implies_checked
      [of "\<lambda>p. Inl RequestException" "\<lambda>p. ''fingerprint''" "''2026-01-01T00:00:00''"
          "\<lparr>cache = None, data_file = None\<rparr>" "''password''" True "\<lambda>i prefix timeout. Inr []"] r
    by blast
  obtain b st'' where r2: "analyze_password (\<lambda>i prefix timeout. Inr []) (\<lambda>p. ''fingerprint'')
        ''2026-01-01T00:00:00'' \<lparr>cache = None, data_file = None\<rparr> [] True = (Inr b, st'')"
    using breach_status_found_implies_checked
      [of "\<lambda>p. fst (check_breach (\<lambda>i prefix timeout. Inr []) p 10 3)" "\<lambda>p. ''fingerprint''"
          "''2026-01-01T00:00:00''" "\<lparr>cache = None, data_file = None\<rparr>" "[]" True
          "\<lambda>i prefix timeout. Inr []"] s2
    unfolding analyze_password_def by blast
  have p2: "\<not> found (breach_status b) \<and> occurrence_count (breach_status b) = 0"
    using breach_status_found_implies_checked
      [of "\<lambda>p. Inl RequestException" "\<lambda>p. ''fingerprint''" "''2026-01-01T00:00:00''"
          "\<lparr>cache = None, data_file = None\<rparr>" "[]" True "\<lambda>i prefix timeout. Inr []"] r2
    by blast
  from r p1 r2 p2 show ?thesis by blast
qed

subsection \<open>Generator\<close>

lemma choice_member:
  assumes "seq \<noteq> []"
  shows "\<exists>c. choice seq g = (Inr c, g\<lparr>drawn := drawn g + 1\<rparr>) \<and> c \<in> set seq"
  using assms by (simp add: choice_def randbelow_def)

lemma shuffle_loop_mset:
  assumes "\<forall>i \<in> set idxs. i < length x"
  shows "mset (fst (shuffle_loop idxs x g)) = mset x"
  using assms
proof (induction idxs arbitrary: x g)
  case Nil
  then show ?case by simp
next
  case (Cons i rest)
  let ?j = "draws g (drawn g) mod (i + 1)"
  let ?x' = "x[i := x ! ?j, ?j := x ! i]"
  have i: "i < length x" using Cons.prems by simp
  have "?j < i + 1" by simp
  with i have j: "?j < length x" by linarith
  have swap: "mset ?x' = mset x" using mset_swap [OF j i] .
  have step: "shuffle_loop (i # rest) x g = shuffle_loop rest ?x' (g\<lparr>drawn := drawn g + 1\<rparr>)"
    by (simp add: randbelow_def)
  have "\<forall>k \<in> set rest. k < length ?x'" using Cons.prems by simp
  then have "mset (fst (shuffle_loop rest ?x' (g\<lparr>drawn := drawn g + 1\<rparr>))) = mset ?x'"
    by (rule Cons.IH)
  from this swap show ?case unfolding step by (rule trans)
qed

lemma shuffle_mset: "mset (fst (shuffle x g)) = mset x"
  unfolding shuffle_def by (rule shuffle_loop_mset) auto

lemma fill_result:
  assumes "char_pool \<noteq> []"
  shows "\<exists>extra g'. fill idxs char_pool acc g = (Inr (acc @ extra), g')
           \<and> length extra = length idxs \<and> set extra \<subseteq> set char_pool"
  using assms
proof (induction idxs arbitrary: acc g)
  case Nil
  then show ?case by simp
next
  case (Cons i rest)
  obtain c where c: "choice char_pool g = (Inr c, g\<lparr>drawn := drawn g + 1\<rparr>)" "c \<in> set char_pool"
    using choice_member [OF Cons.prems] by blast
  obtain extra g' where
    r: "fill rest char_pool (acc @ [c]) (g\<lparr>drawn := drawn g + 1\<rparr>) = (Inr ((acc @ [c]) @ extra), g')"
       "length extra = length rest" "set extra \<subseteq> set char_pool"
    using Cons.IH [OF Cons.prems] by blast
  have "fill (i # rest) char_pool acc g = (Inr (acc @ (c # extra)), g')"
    using c r by simp
  moreover have "length (c # extra) = length (i # rest)" using r by simp
  moreover have "set (c # extra) \<subseteq> set char_pool" using c r by simp
  ultimately show ?case by blast
qed

lemma use_class_selected:
  assumes "chars \<noteq> []"
  shows "\<exists>c g'. use_class True chars (char_pool, required_chars) g
                  = (Inr (char_pool @ chars, required_chars @ [c]), g') \<and> c \<in> set chars"
proof -
  obtain c where "choice chars g = (Inr c, g\<lparr>drawn := drawn g + 1\<rparr>)" "c \<in> set chars"
    using choice_member [OF assms] by blast
  then show ?thesis by (simp add: use_class_def)
qed

lemma use_class_not_selected: "use_class False chars acc g = (Inr acc, g)"
  by (simp add: use_class_def split: prod.splits)

lemma unambiguous_set:
  "set (unambiguous avoid_ambiguous chars) =
     (if avoid_ambiguous then set chars - set AMBIGUOUS else set chars)"
  by (auto simp: unambiguous_def str_in_single)

lemma class_alphabets_nonempty:
  "unambiguous avoid_ambiguous LOWERCASE \<noteq> []"
  "unambiguous avoid_ambiguous UPPERCASE \<noteq> []"
  "unambiguous avoid_ambiguous DIGITS \<noteq> []"
  "SYMBOLS \<noteq> []"
proof -
  have "CHR ''a'' \<in> set (unambiguous avoid_ambiguous LOWERCASE)"
    by (simp add: unambiguous_set LOWERCASE_def ascii_lowercase_def AMBIGUOUS_def)
  then show "unambiguous avoid_ambiguous LOWERCASE \<noteq> []" by auto
  have "CHR ''A'' \<in> set (unambiguous avoid_ambiguous UPPERCASE)"
    by (simp add: unambiguous_set UPPERCASE_def ascii_uppercase_def AMBIGUOUS_def)
  then show "unambiguous avoid_ambiguous UPPERCASE \<noteq> []" by auto
  have "CHR ''2'' \<in> set (unambiguous avoid_ambiguous DIGITS)"
    by (simp add: unambiguous_set DIGITS_def digits_def AMBIGUOUS_def)
  then show "unambiguous avoid_ambiguous DIGITS \<noteq> []" by auto
  show "SYMBOLS \<noteq> []" by (simp add: SYMBOLS_def punctuation_def)
qed

lemma symbols_unambiguous: "set SYMBOLS \<inter> set AMBIGUOUS = {}"
  by (simp add: SYMBOLS_def punctuation_def AMBIGUOUS_def)

lemma use_class_step:
  assumes "chars \<noteq> []"
  shows "\<exists>req' g'. use_class selected chars (char_pool, required_chars) g
                     = (Inr (char_pool @ (if selected then chars else []), required_chars @ req'), g')
           \<and> length req' = (if selected then 1 else 0) \<and> set req' \<subseteq> set chars
           \<and> (\<not> selected \<longrightarrow> g' = g)"
proof (cases selected)
  case True
  obtain c g' where
    "use_class True chars (char_pool, required_chars) g
       = (Inr (char_pool @ chars, required_chars @ [c]), g')" "c \<in> set chars"
    using use_class_selected [OF assms] by blast
  then have "use_class selected chars (char_pool, required_chars) g
               = (Inr (char_pool @ (if selected then chars else []), required_chars @ [c]), g')
           \<and> length [c] = (if selected then 1 else 0) \<and> set [c] \<subseteq> set chars
           \<and> (\<not> selected \<longrightarrow> g' = g)"
    using True by simp
  then show ?thesis by blast
next
  case False
  then have "use_class selected chars (char_pool, required_chars) g
               = (Inr (char_pool @ (if selected then chars else []), required_chars @ []), g)
           \<and> length ([] :: string) = (if selected then 1 else 0) \<and> set [] \<subseteq> set chars
           \<and> (\<not> selected \<longrightarrow> g = g)"
    by (simp add: use_class_not_selected)
  then show ?thesis by blast
qed

lemma build_pool_result:
  "\<exists>r1 r2 r3 r4 g'.
      build_pool use_lowercase use_uppercase use_digits use_symbols avoid_ambiguous g
        = (Inr (selected_pool use_lowercase use_uppercase use_digits use_symbols avoid_ambiguous,
                r1 @ r2 @ r3 @ r4), g')
      \<and> length r1 = (if use_lowercase then 1 else 0) \<and> set r1 \<subseteq> set (unambiguous avoid_ambiguous LOWERCASE)
      \<and> length r2 = (if use_uppercase then 1 else 0) \<and> set r2 \<subseteq> set (unambiguous avoid_ambiguous UPPERCASE)
      \<and> length r3 = (if use_digits then 1 else 0) \<and> set r3 \<subseteq> set (unambiguous avoid_ambiguous DIGITS)
      \<and> length r4 = (if use_symbols then 1 else 0) \<and> set r4 \<subseteq> set SYMBOLS
      \<and> (\<not> use_lowercase \<and> \<not> use_uppercase \<and> \<not> use_digits \<and> \<not> use_symbols \<longrightarrow> g' = g)"
proof -
  let ?L = "unambiguous avoid_ambiguous LOWERCASE"
  let ?U = "unambiguous avoid_ambiguous UPPERCASE"
  let ?D = "unambiguous avoid_ambiguous DIGITS"
  obtain r1 g1 where s1:
    "use_class use_lowercase ?L ([], []) g = (Inr ([] @ (if use_lowercase then ?L else []), [] @ r1), g1)"
    "length r1 = (if use_lowercase then 1 else 0)" "set r1 \<subseteq> set ?L" "\<not> use_lowercase \<longrightarrow> g1 = g"
    using use_class_step [OF class_alphabets_nonempty(1)] by blast
  obtain r2 g2 where s2:
    "use_class use_uppercase ?U ([] @ (if use_lowercase then ?L else []), [] @ r1) g1
       = (Inr (([] @ (if use_lowercase then ?L else [])) @ (if use_uppercase then ?U else []), ([] @ r1) @ r2), g2)"
    "length r2 = (if use_uppercase then 1 else 0)" "set r2 \<subseteq> set ?U" "\<not> use_uppercase \<longrightarrow> g2 = g1"
    using use_class_step [OF class_alphabets_nonempty(2)] by blast
  obtain r3 g3 where s3:
    "use_class use_digits ?D (([] @ (if use_lowercase then ?L else [])) @ (if use_uppercase then ?U else []), ([] @ r1) @ r2) g2
       = (Inr ((([] @ (if use_lowercase then ?L else [])) @ (if use_uppercase then ?U else [])) @ (if use_digits then ?D else []),
               (([] @ r1) @ r2) @ r3), g3)"
    "length r3 = (if use_digits then 1 else 0)" "set r3 \<subseteq> set ?D" "\<not> use_digits \<longrightarrow> g3 = g2"
    using use_class_step [OF class_alphabets_nonempty(3)] by blast
  obtain r4 g4 where s4:
    "use_class use_symbols SYMBOLS
        ((([] @ (if use_lowercase then ?L else [])) @ (if use_uppercase then ?U else [])) @ (if use_digits then ?D else []),
         (([] @ r1) @ r2) @ r3) g3
       = (Inr (((([] @ (if use_lowercase then ?L else [])) @ (if use_uppercase then ?U else [])) @ (if use_digits then ?D else []))
                 @ (if use_symbols then SYMBOLS else []),
               ((([] @ r1) @ r2) @ r3) @ r4), g4)"
    "length r4 = (if use_symbols then 1 else 0)" "set r4 \<subseteq> set SYMBOLS" "\<not> use_symbols \<longrightarrow> g4 = g3"
    using use_class_step [OF class_alphabets_nonempty(4)] by blast
  have "build_pool use_lowercase use_uppercase use_digits use_symbols avoid_ambiguous g
        = (Inr (selected_pool use_lowercase use_uppercase use_digits use_symbols avoid_ambiguous,
                r1 @ r2 @ r3 @ r4), g4)"
    unfolding build_pool_def selected_pool_def using s1(1) s2(1) s3(1) s4(1) by simp
  moreover have "\<not> use_lowercase \<and> \<not> use_uppercase \<and> \<not> use_digits \<and> \<not> use_symbols \<longrightarrow> g4 = g"
    using s1(4) s2(4) s3(4) s4(4) by simp
  ultimately show ?thesis
    using s1(2,3) s2(2,3) s3(2,3) s4(2,3) by blast
qed

lemma selected_pool_iff:
  "c \<in> set (selected_pool use_lowercase use_uppercase use_digits use_symbols avoid_ambiguous) \<longleftrightarrow>
     (use_lowercase \<and> lowercase_letter c \<and> (avoid_ambiguous \<longrightarrow> c \<notin> set AMBIGUOUS))
     \<or> (use_uppercase \<and> uppercase_letter c \<and> (avoid_ambiguous \<longrightarrow> c \<notin> set AMBIGUOUS))
     \<or> (use_digits \<and> decimal_digit c \<and> (avoid_ambiguous \<longrightarrow> c \<notin> set AMBIGUOUS))
     \<or> (use_symbols \<and> ascii_punctuation c)"
  unfolding selected_pool_def
  by (simp add: unambiguous_set LOWERCASE_def UPPERCASE_def DIGITS_def SYMBOLS_def
      in_ascii_lowercase in_ascii_uppercase in_digits in_punctuation)

lemma selected_pool_nonempty:
  assumes "use_lowercase \<or> use_uppercase \<or> use_digits \<or> use_symbols"
  shows "selected_pool use_lowercase use_uppercase use_digits use_symbols avoid_ambiguous \<noteq> []"
  using assms class_alphabets_nonempty
  by (auto simp: selected_pool_def)

lemma generate_password_valid:
  assumes "8 \<le> n" and "n \<le> 128"
    and "use_lowercase \<or> use_uppercase \<or> use_digits \<or> use_symbols"
  shows "\<exists>pw g'. generate_password (PyInt n) use_lowercase use_uppercase use_digits use_symbols
                    avoid_ambiguous g = (Inr pw, g')
           \<and> int (length pw) = n
           \<and> (use_lowercase \<longrightarrow> (\<exists>c \<in> set pw. c \<in> set (unambiguous avoid_ambiguous LOWERCASE)))
           \<and> (use_uppercase \<longrightarrow> (\<exists>c \<in> set pw. c \<in> set (unambiguous avoid_ambiguous UPPERCASE)))
           \<and> (use_digits \<longrightarrow> (\<exists>c \<in> set pw. c \<in> set (unambiguous avoid_ambiguous DIGITS)))
           \<and> (use_symbols \<longrightarrow> (\<exists>c \<in> set pw. c \<in> set SYMBOLS))
           \<and> set pw \<subseteq> set (selected_pool use_lowercase use_uppercase use_digits use_symbols avoid_ambiguous)"
proof -
  let ?pool = "selected_pool use_lowercase use_uppercase use_digits use_symbols avoid_ambiguous"
  let ?L = "unambiguous avoid_ambiguous LOWERCASE"
  let ?U = "unambiguous avoid_ambiguous UPPERCASE"
  let ?D = "unambiguous avoid_ambiguous DIGITS"
  obtain r1 r2 r3 r4 g1 where
    bp: "build_pool use_lowercase use_uppercase use_digits use_symbols avoid_ambiguous g
           = (Inr (?pool, r1 @ r2 @ r3 @ r4), g1)"
    and l1: "length r1 = (if use_lowercase then 1 else 0)" and m1: "set r1 \<subseteq> set ?L"
    and l2: "length r2 = (if use_uppercase then 1 else 0)" and m2: "set r2 \<subseteq> set ?U"
    and l3: "length r3 = (if use_digits then 1 else 0)" and m3: "set r3 \<subseteq> set ?D"
    and l4: "length r4 = (if use_symbols then 1 else 0)" and m4: "set r4 \<subseteq> set SYMBOLS"
    using build_pool_result [of use_lowercase use_uppercase use_digits use_symbols avoid_ambiguous g]
    by blast
  define req where "req = r1 @ r2 @ r3 @ r4"
  have bp': "build_pool use_lowercase use_uppercase use_digits use_symbols avoid_ambiguous g
           = (Inr (?pool, req), g1)"
    using bp by (simp add: req_def)
  have pool: "?pool \<noteq> []" using assms(3) by (rule selected_pool_nonempty)
  have len_req: "length req \<le> 4" using l1 l2 l3 l4 by (simp add: req_def)
  obtain extra g2 where
    fl: "fill (py_range (n - int (length req))) ?pool req g1 = (Inr (req @ extra), g2)"
    and le: "length extra = length (py_range (n - int (length req)))"
    and me: "set extra \<subseteq> set ?pool"
    using fill_result [OF pool] by blast
  obtain sh g3 where sh: "shuffle (req @ extra) g2 = (sh, g3)"
    by (cases "shuffle (req @ extra) g2")
  have ms: "mset sh = mset (req @ extra)"
    using shuffle_mset [of "req @ extra" g2] sh by simp
  have gen: "generate_password (PyInt n) use_lowercase use_uppercase use_digits use_symbols
               avoid_ambiguous g = (Inr sh, g3)"
    using assms(1,2) pool by (simp add: generate_password_def bp' fl sh Let_def)
  have "length sh = length (req @ extra)" using ms by (rule mset_eq_length)
  also have "\<dots> = length req + nat (n - int (length req))"
    using le by (simp add: py_range_def)
  finally have len: "int (length sh) = n" using len_req assms(1) by simp
  have set_sh: "set sh = set r1 \<union> set r2 \<union> set r3 \<union> set r4 \<union> set extra"
    using mset_eq_setD [OF ms] by (simp add: req_def Un_assoc)
  have e1: "\<exists>c \<in> set sh. c \<in> set ?L" if use_lowercase
  proof -
    from that l1 obtain c where "c \<in> set r1" by (cases r1) auto
    with m1 set_sh show ?thesis by auto
  qed
  have e2: "\<exists>c \<in> set sh. c \<in> set ?U" if use_uppercase
  proof -
    from that l2 obtain c where "c \<in> set r2" by (cases r2) auto
    with m2 set_sh show ?thesis by auto
  qed
  have e3: "\<exists>c \<in> set sh. c \<in> set ?D" if use_digits
  proof -
    from that l3 obtain c where "c \<in> set r3" by (cases r3) auto
    with m3 set_sh show ?thesis by auto
  qed
  have e4: "\<exists>c \<in> set sh. c \<in> set SYMBOLS" if use_symbols
  proof -
    from that l4 obtain c where "c \<in> set r4" by (cases r4) auto
    with m4 set_sh show ?thesis by auto
  qed
  have s1: "set r1 \<subseteq> set ?pool" using l1 m1 by (cases use_lowercase) (auto simp: selected_pool_def)
  have s2: "set r2 \<subseteq> set ?pool" using l2 m2 by (cases use_uppercase) (auto simp: selected_pool_def)
  have s3: "set r3 \<subseteq> set ?pool" using l3 m3 by (cases use_digits) (auto simp: selected_pool_def)
  have s4: "set r4 \<subseteq> set ?pool" using l4 m4 by (cases use_symbols) (auto simp: selected_pool_def)
  have sub: "set sh \<subseteq> set ?pool" using set_sh s1 s2 s3 s4 me by auto
  show ?thesis using gen len e1 e2 e3 e4 sub by blast
qed

lemma generate_password_invalid_length:
  "generate_password NotInt use_lowercase use_uppercase use_digits use_symbols avoid_ambiguous g
     = (Inl (ValueError ''Length must be an integer''), g)"
  "n < 8 \<Longrightarrow>
     generate_password (PyInt n) use_lowercase use_uppercase use_digits use_symbols avoid_ambiguous g
       = (Inl (ValueError ''Password length must be at least 8 characters''), g)"
  "128 < n \<Longrightarrow>
     generate_password (PyInt n) use_lowercase use_uppercase use_digits use_symbols avoid_ambiguous g
       = (Inl (ValueError ''Password length must not exceed 128 characters''), g)"
  by (simp_all add: generate_password_def)

lemma generate_password_no_class:
  assumes "8 \<le> n" and "n \<le> 128"
  shows "generate_password (PyInt n) False False False False avoid_ambiguous g
           = (Inl (ValueError ''At least one character set must be selected''), g)"
proof -
  have "build_pool False False False False avoid_ambiguous g = (Inr ([], []), g)"
    by (simp add: build_pool_def use_class_not_selected)
  then show ?thesis using assms by (simp add: generate_password_def)
qed

lemma classes_disjoint:
  "lowercase_letter c \<Longrightarrow> \<not> uppercase_letter c \<and> \<not> decimal_digit c \<and> \<not> ascii_punctuation c"
  "uppercase_letter c \<Longrightarrow> \<not> lowercase_letter c \<and> \<not> decimal_digit c \<and> \<not> ascii_punctuation c"
  "decimal_digit c \<Longrightarrow> \<not> lowercase_letter c \<and> \<not> uppercase_letter c \<and> \<not> ascii_punctuation c"
  "ascii_punctuation c \<Longrightarrow> \<not> lowercase_letter c \<and> \<not> uppercase_letter c \<and> \<not> decimal_digit c"
  by (auto simp: lowercase_letter_def uppercase_letter_def decimal_digit_def ascii_punctuation_def)

text \<open>
  Claim C6.  For an integer length between 8 and 128 and at least one selected class,
  \<open>generate_password\<close> returns a string of exactly that length with at least one character
  of each selected class, and with \<open>avoid_ambiguous\<close> set none of the characters 0, O, 1, l,
  I occurs in it.  A length below 8 or above 128, a length that is not an integer, and a
  request with no class selected each end in a \<open>ValueError\<close> that says what is wrong, and
  nothing is drawn from the random source.
\<close>

theorem generate_password_contract:
  "(8 \<le> n \<and> n \<le> 128 \<and> (use_lowercase \<or> use_uppercase \<or> use_digits \<or> use_symbols) \<longrightarrow>
      (\<exists>pw g'. generate_password (PyInt n) use_lowercase use_uppercase use_digits use_symbols
                  avoid_ambiguous g = (Inr pw, g')
         \<and> int (length pw) = n
         \<and> (use_lowercase \<longrightarrow> (\<exists>c \<in> set pw. lowercase_letter c))
         \<and> (use_uppercase \<longrightarrow> (\<exists>c \<in> set pw. uppercase_letter c))
         \<and> (use_digits \<longrightarrow> (\<exists>c \<in> set pw. decimal_digit c))
         \<and> (use_symbols \<longrightarrow> (\<exists>c \<in> set pw. ascii_punctuation c))
         \<and> (avoid_ambiguous \<longrightarrow> (\<forall>c \<in> set pw. c \<notin> set ''0O1lI''))))
   \<and> (n < 8 \<longrightarrow>
        generate_password (PyInt n) use_lowercase use_uppercase use_digits use_symbols avoid_ambiguous g
          = (Inl (ValueError ''Password length must be at least 8 characters''), g))
   \<and> (128 < n \<longrightarrow>
        generate_password (PyInt n) use_lowercase use_uppercase use_digits use_symbols avoid_ambiguous g
          = (Inl (ValueError ''Password length must not exceed 128 characters''), g))
   \<and> generate_password NotInt use_lowercase use_uppercase use_digits use_symbols avoid_ambiguous g
       = (Inl (ValueError ''Length must be an integer''), g)
   \<and> (8 \<le> n \<and> n \<le> 128 \<longrightarrow>
        generate_password (PyInt n) False False False False avoid_ambiguous g
          = (Inl (ValueError ''At least one character set must be selected''), g))"
proof -
  have valid: "\<exists>pw g'. generate_password (PyInt n) use_lowercase use_uppercase use_digits use_symbols
                  avoid_ambiguous g = (Inr pw, g')
         \<and> int (length pw) = n
         \<and> (use_lowercase \<longrightarrow> (\<exists>c \<in> set pw. lowercase_letter c))
         \<and> (use_uppercase \<longrightarrow> (\<exists>c \<in> set pw. uppercase_letter c))
         \<and> (use_digits \<longrightarrow> (\<exists>c \<in> set pw. decimal_digit c))
         \<and> (use_symbols \<longrightarrow> (\<exists>c \<in> set pw. ascii_punctuation c))
         \<and> (avoid_ambiguous \<longrightarrow> (\<forall>c \<in> set pw. c \<notin> set ''0O1lI''))"
    if v: "8 \<le> n" "n \<le> 128" "use_lowercase \<or> use_uppercase \<or> use_digits \<or> use_symbols"
  proof -
    obtain pw g' where
      gen: "generate_password (PyInt n) use_lowercase use_uppercase use_digits use_symbols
              avoid_ambiguous g = (Inr pw, g')"
      and len: "int (length pw) = n"
      and lo: "use_lowercase \<longrightarrow> (\<exists>c \<in> set pw. c \<in> set (unambiguous avoid_ambiguous LOWERCASE))"
      and up: "use_uppercase \<longrightarrow> (\<exists>c \<in> set pw. c \<in> set (unambiguous avoid_ambiguous UPPERCASE))"
      and di: "use_digits \<longrightarrow> (\<exists>c \<in> set pw. c \<in> set (unambiguous avoid_ambiguous DIGITS))"
      and sy: "use_symbols \<longrightarrow> (\<exists>c \<in> set pw. c \<in> set SYMBOLS)"
      and sub: "set pw \<subseteq> set (selected_pool use_lowercase use_uppercase use_digits use_symbols avoid_ambiguous)"
      using generate_password_valid [OF v] by blast
    have lo': "use_lowercase \<longrightarrow> (\<exists>c \<in> set pw. lowercase_letter c)"
      using lo by (auto simp: unambiguous_set LOWERCASE_def in_ascii_lowercase split: if_splits)
    have up': "use_uppercase \<longrightarrow> (\<exists>c \<in> set pw. uppercase_letter c)"
      using up by (auto simp: unambiguous_set UPPERCASE_def in_ascii_uppercase split: if_splits)
    have di': "use_digits \<longrightarrow> (\<exists>c \<in> set pw. decimal_digit c)"
      using di by (auto simp: unambiguous_set DIGITS_def in_digits split: if_splits)
    have sy': "use_symbols \<longrightarrow> (\<exists>c \<in> set pw. ascii_punctuation c)"
      using sy by (auto simp: SYMBOLS_def in_punctuation)
    have amb: "avoid_ambiguous \<longrightarrow> (\<forall>c \<in> set pw. c \<notin> set ''0O1lI'')"
    proof (intro impI ballI)
      fix c assume a: avoid_ambiguous and c: "c \<in> set pw"
      from c sub have "c \<in> set (selected_pool use_lowercase use_uppercase use_digits use_symbols avoid_ambiguous)"
        by blast
      then have "c \<notin> set AMBIGUOUS"
        using a symbols_unambiguous
        by (auto simp: selected_pool_def unambiguous_set split: if_splits)
      then show "c \<notin> set ''0O1lI''" by (simp add: AMBIGUOUS_def)
    qed
    from gen len lo' up' di' sy' amb show ?thesis by blast
  qed
  show ?thesis
  proof (intro conjI impI)
    assume "8 \<le> n \<and> n \<le> 128 \<and> (use_lowercase \<or> use_uppercase \<or> use_digits \<or> use_symbols)"
    then show "\<exists>pw g'. generate_password (PyInt n) use_lowercase use_uppercase use_digits use_symbols
                  avoid_ambiguous g = (Inr pw, g')
         \<and> int (length pw) = n
         \<and> (use_lowercase \<longrightarrow> (\<exists>c \<in> set pw. lowercase_letter c))
         \<and> (use_uppercase \<longrightarrow> (\<exists>c \<in> set pw. uppercase_letter c))
         \<and> (use_digits \<longrightarrow> (\<exists>c \<in> set pw. decimal_digit c))
         \<and> (use_symbols \<longrightarrow> (\<exists>c \<in> set pw. ascii_punctuation c))
         \<and> (avoid_ambiguous \<longrightarrow> (\<forall>c \<in> set pw. c \<notin> set ''0O1lI''))"
      using valid by simp
  next
    assume "n < 8"
    then show "generate_password (PyInt n) use_lowercase use_uppercase use_digits use_symbols avoid_ambiguous g
          = (Inl (ValueError ''Password length must be at least 8 characters''), g)"
      by (rule generate_password_invalid_length(2))
  next
    assume "128 < n"
    then show "generate_password (PyInt n) use_lowercase use_uppercase use_digits use_symbols avoid_ambiguous g
          = (Inl (ValueError ''Password length must not exceed 128 characters''), g)"
      by (rule generate_password_invalid_length(3))
  next
    show "generate_password NotInt use_lowercase use_uppercase use_digits use_symbols avoid_ambiguous g
       = (Inl (ValueError ''Length must be an integer''), g)"
      by (rule generate_password_invalid_length(1))
  next
    assume "8 \<le> n \<and> n \<le> 128"
    then show "generate_password (PyInt n) False False False False avoid_ambiguous g
          = (Inl (ValueError ''At least one character set must be selected''), g)"
      using generate_password_no_class by simp
  qed
qed

theorem generate_password_contract_witness:
  "(\<exists>pw g'. generate_password (PyInt 20) True True True True True \<lparr>draws = (\<lambda>k. 7 * k + 3), drawn = 0\<rparr>
        = (Inr pw, g')
      \<and> length pw = 20
      \<and> (\<exists>c \<in> set pw. lowercase_letter c) \<and> (\<exists>c \<in> set pw. uppercase_letter c)
      \<and> (\<exists>c \<in> set pw. decimal_digit c) \<and> (\<exists>c \<in> set pw. ascii_punctuation c)
      \<and> (\<forall>c \<in> set pw. c \<notin> set ''0O1lI''))
   \<and> generate_password (PyInt 7) True True True True False \<lparr>draws = (\<lambda>k. 7 * k + 3), drawn = 0\<rparr>
       = (Inl (ValueError ''Password length must be at least 8 characters''),
          \<lparr>draws = (\<lambda>k. 7 * k + 3), drawn = 0\<rparr>)"
  using generate_password_contract
      [of 20 True True True True True "\<lparr>draws = (\<lambda>k. 7 * k + 3), drawn = 0\<rparr>"]
    generate_password_contract
      [of 7 True True True True False "\<lparr>draws = (\<lambda>k. 7 * k + 3), drawn = 0\<rparr>"]
  by simp

text \<open>
  Claim C10.  For every valid request each character of the generated password belongs to
  the alphabet of one of the selected classes, the ambiguous characters left out of the
  alphanumeric classes when that flag is set; a class that is not selected contributes no
  character, so without \<open>use_symbols\<close> the password has no punctuation character and without
  \<open>use_digits\<close> no digit.
\<close>

theorem generate_password_alphabet:
  "8 \<le> n \<and> n \<le> 128 \<and> (use_lowercase \<or> use_uppercase \<or> use_digits \<or> use_symbols) \<longrightarrow>
     (\<exists>pw g'. generate_password (PyInt n) use_lowercase use_uppercase use_digits use_symbols
                 avoid_ambiguous g = (Inr pw, g')
        \<and> (\<forall>c \<in> set pw.
              (use_lowercase \<and> lowercase_letter c \<and> (avoid_ambiguous \<longrightarrow> c \<notin> set AMBIGUOUS))
              \<or> (use_uppercase \<and> uppercase_letter c \<and> (avoid_ambiguous \<longrightarrow> c \<notin> set AMBIGUOUS))
              \<or> (use_digits \<and> decimal_digit c \<and> (avoid_ambiguous \<longrightarrow> c \<notin> set AMBIGUOUS))
              \<or> (use_symbols \<and> ascii_punctuation c))
        \<and> (\<not> use_lowercase \<longrightarrow> (\<forall>c \<in> set pw. \<not> lowercase_letter c))
        \<and> (\<not> use_uppercase \<longrightarrow> (\<forall>c \<in> set pw. \<not> uppercase_letter c))
        \<and> (\<not> use_digits \<longrightarrow> (\<forall>c \<in> set pw. \<not> decimal_digit c \<and> c \<notin> set digits))
        \<and> (\<not> use_symbols \<longrightarrow> (\<forall>c \<in> set pw. \<not> ascii_punctuation c \<and> c \<notin> set punctuation)))"
proof (intro impI)
  assume v: "8 \<le> n \<and> n \<le> 128 \<and> (use_lowercase \<or> use_uppercase \<or> use_digits \<or> use_symbols)"
  then obtain pw g' where
    gen: "generate_password (PyInt n) use_lowercase use_uppercase use_digits use_symbols
            avoid_ambiguous g = (Inr pw, g')"
    and sub: "set pw \<subseteq> set (selected_pool use_lowercase use_uppercase use_digits use_symbols avoid_ambiguous)"
    using generate_password_valid [of n use_lowercase use_uppercase use_digits use_symbols avoid_ambiguous g]
    by blast
  have member: "(use_lowercase \<and> lowercase_letter c \<and> (avoid_ambiguous \<longrightarrow> c \<notin> set AMBIGUOUS))
              \<or> (use_uppercase \<and> uppercase_letter c \<and> (avoid_ambiguous \<longrightarrow> c \<notin> set AMBIGUOUS))
              \<or> (use_digits \<and> decimal_digit c \<and> (avoid_ambiguous \<longrightarrow> c \<notin> set AMBIGUOUS))
              \<or> (use_symbols \<and> ascii_punctuation c)" if "c \<in> set pw" for c
  proof -
    from that sub have "c \<in> set (selected_pool use_lowercase use_uppercase use_digits use_symbols avoid_ambiguous)"
      by (rule subsetD [rotated])
    then show ?thesis by (simp only: selected_pool_iff)
  qed
  have only: "(lowercase_letter c \<longrightarrow> use_lowercase) \<and> (uppercase_letter c \<longrightarrow> use_uppercase)
              \<and> (decimal_digit c \<longrightarrow> use_digits) \<and> (ascii_punctuation c \<longrightarrow> use_symbols)"
    if "c \<in> set pw" for c
    using member [OF that] classes_disjoint [of c] by blast
  have "\<forall>c \<in> set pw.
              (use_lowercase \<and> lowercase_letter c \<and> (avoid_ambiguous \<longrightarrow> c \<notin> set AMBIGUOUS))
              \<or> (use_uppercase \<and> uppercase_letter c \<and> (avoid_ambiguous \<longrightarrow> c \<notin> set AMBIGUOUS))
              \<or> (use_digits \<and> decimal_digit c \<and> (avoid_ambiguous \<longrightarrow> c \<notin> set AMBIGUOUS))
              \<or> (use_symbols \<and> ascii_punctuation c)"
    using member by (rule ballI)
  moreover have "\<not> use_lowercase \<longrightarrow> (\<forall>c \<in> set pw. \<not> lowercase_letter c)"
    using only by blast
  moreover have "\<not> use_uppercase \<longrightarrow> (\<forall>c \<in> set pw. \<not> uppercase_letter c)"
    using only by blast
  moreover have "\<not> use_digits \<longrightarrow> (\<forall>c \<in> set pw. \<not> decimal_digit c \<and> c \<notin> set digits)"
    unfolding in_digits using only by blast
  moreover have "\<not> use_symbols \<longrightarrow> (\<forall>c \<in> set pw. \<not> ascii_punctuation c \<and> c \<notin> set punctuation)"
    unfolding in_punctuation using only by blast
  ultimately have "generate_password (PyInt n) use_lowercase use_uppercase use_digits use_symbols
                 avoid_ambiguous g = (Inr pw, g')
        \<and> (\<forall>c \<in> set pw.
              (use_lowercase \<and> lowercase_letter c \<and> (avoid_ambiguous \<longrightarrow> c \<notin> set AMBIGUOUS))
              \<or> (use_uppercase \<and> uppercase_letter c \<and> (avoid_ambiguous \<longrightarrow> c \<notin> set AMBIGUOUS))
              \<or> (use_digits \<and> decimal_digit c \<and> (avoid_ambiguous \<longrightarrow> c \<notin> set AMBIGUOUS))
              \<or> (use_symbols \<and> ascii_punctuation c))
        \<and> (\<not> use_lowercase \<longrightarrow> (\<forall>c \<in> set pw. \<not> lowercase_letter c))
        \<and> (\<not> use_uppercase \<longrightarrow> (\<forall>c \<in> set pw. \<not> uppercase_letter c))
        \<and> (\<not> use_digits \<longrightarrow> (\<forall>c \<in> set pw. \<not> decimal_digit c \<and> c \<notin> set digits))
        \<and> (\<not> use_symbols \<longrightarrow> (\<forall>c \<in> set pw. \<not> ascii_punctuation c \<and> c \<notin> set punctuation))"
    using gen by (intro conjI)
  then show "\<exists>pw g'. generate_password (PyInt n) use_lowercase use_uppercase use_digits use_symbols
                 avoid_ambiguous g = (Inr pw, g')
        \<and> (\<forall>c \<in> set pw.
              (use_lowercase \<and> lowercase_letter c \<and> (avoid_ambiguous \<longrightarrow> c \<notin> set AMBIGUOUS))
              \<or> (use_uppercase \<and> uppercase_letter c \<and> (avoid_ambiguous \<longrightarrow> c \<notin> set AMBIGUOUS))
              \<or> (use_digits \<and> decimal_digit c \<and> (avoid_ambiguous \<longrightarrow> c \<notin> set AMBIGUOUS))
              \<or> (use_symbols \<and> ascii_punctuation c))
        \<and> (\<not> use_lowercase \<longrightarrow> (\<forall>c \<in> set pw. \<not> lowercase_letter c))
        \<and> (\<not> use_uppercase \<longrightarrow> (\<forall>c \<in> set pw. \<not> uppercase_letter c))
        \<and> (\<not> use_digits \<longrightarrow> (\<forall>c \<in> set pw. \<not> decimal_digit c \<and> c \<notin> set digits))
        \<and> (\<not> use_symbols \<longrightarrow> (\<forall>c \<in> set pw. \<not> ascii_punctuation c \<and> c \<notin> set punctuation))"
    by (intro exI)
qed

theorem generate_password_alphabet_witness:
  "\<exists>pw g'. generate_password (PyInt 16) True True False False False \<lparr>draws = (\<lambda>k. 5 * k + 1), drawn = 0\<rparr>
       = (Inr pw, g')
     \<and> (\<forall>c \<in> set pw. lowercase_letter c \<or> uppercase_letter c)
     \<and> (\<forall>c \<in> set pw. c \<notin> set punctuation) \<and> (\<forall>c \<in> set pw. c \<notin> set digits)"
  using generate_password_alphabet
      [of 16 True True False False False "\<lparr>draws = (\<lambda>k. 5 * k + 1), drawn = 0\<rparr>"]
  by (simp del: set_simps) blast

subsection \<open>Breach client: the hash\<close>

lemma replicate_numeral: "replicate (numeral k) x = x # replicate (pred_numeral k) x"
  by (simp add: numeral_eq_Suc)

lemma schedule_rev_numeral:
  "schedule_rev (numeral k) r =
     schedule_rev (pred_numeral k) (rotl 1 (r ! 2 XOR r ! 7 XOR r ! 13 XOR r ! 15) # r)"
  by (simp add: numeral_eq_Suc)

lemma rotl_eval: "rotl n w = take_bit 32 (push_bit n w OR drop_bit (32 - n) w)"
  by (simp add: rotl_def take_bit_word_eq_self)

lemmas sha1_eval =
  sha1_hash_def upper_def upper_char_def char_of_def bit_0
  sha1_def sha1_pad_def encode_utf8_def be_bytes64_def replicate_numeral sha1_block_def
  schedule_def schedule_rev_numeral rotl_eval sha1_init_def sha1_f_def sha1_k_def
  word_bytes_def hexdigest_def hexdigit_def

lemma sha1_hash_password: "sha1_hash ''password'' = ''5BAA61E4C9B93F3F0682250B6CF8331B7EE68FD8''"
  by (simp add: sha1_eval)

lemma sha1_hash_empty: "sha1_hash [] = ''DA39A3EE5E6B4B0D3255BFEF95601890AFD80709''"
  by (simp add: sha1_eval)

text \<open>Two more digests of \<open>hashlib\<close>: a message of two blocks and one with a two-byte character.\<close>

lemma sha1_hash_two_blocks:
  "sha1_hash ''abcdbcdecdefdefgefghfghighijhijkijkljklmklmnlmnomnopnopq''
     = ''84983E441C3BD26EBAAE4AA1F95129E5E54670F1''"
  by (simp add: sha1_eval)

lemma sha1_hash_two_byte_character:
  "sha1_hash (''caf'' @ [CHR 0xE9]) = ''F424452A9673918C6F09B0CDD35B20BE8E6AE7D7''"
  by (simp add: sha1_eval)

lemma length_hexdigest: "length (hexdigest bs) = 2 * length bs"
  by (induction bs) (simp_all add: hexdigest_def)

lemma length_sha1: "length (sha1 m) = 20"
  by (simp add: sha1_def word_bytes_def split: prod.splits)

lemma length_sha1_hash: "length (sha1_hash password) = 40"
  by (simp add: sha1_hash_def upper_def length_hexdigest length_sha1)

lemma upper_hexdigit:
  assumes "n < 16"
  shows "upper_char (hexdigit n) \<in> set ''0123456789ABCDEF''"
proof -
  have "list_all (\<lambda>k. upper_char (hexdigit k) \<in> set ''0123456789ABCDEF'') [0..<16]"
    by (simp add: upt_rec hexdigit_def upper_char_def char_of_def bit_0)
  then show ?thesis using assms by (simp only: list_all_iff set_upt atLeastLessThan_iff) simp
qed

lemma sha1_hash_uppercase_hex: "set (sha1_hash password) \<subseteq> set ''0123456789ABCDEF''"
proof -
  have "upper_char c \<in> set ''0123456789ABCDEF''" if "c \<in> set (hexdigest bs)" for c bs
  proof -
    from that obtain b :: byte where
      "c = hexdigit (unat b div 16) \<or> c = hexdigit (unat b mod 16)"
      by (auto simp: hexdigest_def)
    moreover have "unat b div 16 < 16"
      using unsigned_less [of b, where 'a = nat] by (simp add: less_mult_imp_div_less)
    moreover have "unat b mod 16 < 16" by simp
    ultimately show ?thesis using upper_hexdigit by blast
  qed
  then show ?thesis unfolding sha1_hash_def upper_def by (auto simp del: set_simps)
qed

lemma find_suffix_spec:
  "find_suffix suffixes s = (b, c) \<Longrightarrow>
     (b \<longleftrightarrow> (\<exists>cnt. (s, cnt) \<in> set suffixes)) \<and> (b \<longrightarrow> (s, c) \<in> set suffixes) \<and> (\<not> b \<longrightarrow> c = 0)"
  by (induction suffixes s rule: find_suffix.induct) (auto split: if_splits)

text \<open>
  Claim C4, amended.  For every non-empty password, \<open>check_breach\<close> hashes the password to
  40 uppercase hexadecimal characters, sends the first 5 as the prefix, and, when the request
  is answered with a list of \<open>(suffix, count)\<close> pairs (at once, or after failed attempts
  within the retry limit and the sleeps between them), returns \<open>(True, count)\<close> for a pair of the list whose suffix equals
  the remaining 35 characters exactly, and \<open>(False, 0)\<close> when the list has no such pair.
  The hash of \<open>password\<close> is \<open>5BAA61E4C9B93F3F0682250B6CF8331B7EE68FD8\<close>.
\<close>

theorem check_breach_lookup:
  assumes "password \<noteq> []" and "j < n"
    and "\<forall>i < j. isl (api i (take 5 (sha1_hash password)) timeout)"
    and "api j (take 5 (sha1_hash password)) timeout = Inr suffixes" and "j \<le> 34"
  shows "length (sha1_hash password) = 40
         \<and> set (sha1_hash password) \<subseteq> set ''0123456789ABCDEF''
         \<and> length (take 5 (sha1_hash password)) = 5
         \<and> length (drop 5 (sha1_hash password)) = 35
         \<and> (\<exists>b c. fst (check_breach api password timeout (int n)) = Inr (Some (b, c))
                \<and> (b \<longleftrightarrow> (\<exists>cnt. (drop 5 (sha1_hash password), cnt) \<in> set suffixes))
                \<and> (b \<longrightarrow> (drop 5 (sha1_hash password), c) \<in> set suffixes)
                \<and> (\<not> b \<longrightarrow> c = 0))
         \<and> (\<forall>prefix t. Request prefix t \<in> set (snd (check_breach api password timeout (int n)))
                \<longrightarrow> prefix = take 5 (sha1_hash password))
         \<and> sha1_hash ''password'' = ''5BAA61E4C9B93F3F0682250B6CF8331B7EE68FD8''"
proof -
  obtain b c where bc: "find_suffix suffixes (drop 5 (sha1_hash password)) = (b, c)"
    by (cases "find_suffix suffixes (drop 5 (sha1_hash password))")
  have run: "check_breach api password timeout (int n) =
           (Inr (Some (b, c)),
            concat (map (\<lambda>attempt. [Request (take 5 (sha1_hash password)) timeout, Sleep (2 ^ attempt)]) [0..<j])
            @ [Request (take 5 (sha1_hash password)) timeout])"
    using check_breach_success [of password j n api timeout suffixes] assms bc by simp
  have requests: "\<forall>prefix t. Request prefix t \<in> set (snd (check_breach api password timeout (int n)))
                \<longrightarrow> prefix = take 5 (sha1_hash password)"
    unfolding run by auto
  show ?thesis
    using find_suffix_spec [OF bc] requests sha1_hash_uppercase_hex [of password]
    by (simp add: run length_sha1_hash sha1_hash_password)
qed

theorem check_breach_lookup_witness:
  "fst (check_breach (responds_with [(''1E4C9B93F3F0682250B6CF8331B7EE68FD8'', 3861493), (''ABCDEF123456'', 100)])
         ''password'' 10 3) = Inr (Some (True, 3861493))
   \<and> take 5 (sha1_hash ''password'') = ''5BAA6''"
proof -
  let ?l = "[(''1E4C9B93F3F0682250B6CF8331B7EE68FD8'', 3861493), (''ABCDEF123456'', 100 :: int)]"
  have h: "take 5 (sha1_hash ''password'') = ''5BAA6''"
    and t: "drop 5 (sha1_hash ''password'') = ''1E4C9B93F3F0682250B6CF8331B7EE68FD8''"
    by (simp_all add: sha1_hash_password)
  have a: "''password'' \<noteq> []" and b: "(0::nat) < 3" and e: "(0::nat) \<le> 34" by simp_all
  have c: "\<forall>i < (0::nat). isl (responds_with ?l i (take 5 (sha1_hash ''password'')) 10)" by simp
  have d: "responds_with ?l 0 (take 5 (sha1_hash ''password'')) 10 = Inr ?l"
    by (simp add: responds_with_def)
  from check_breach_lookup [of "''password''" 0 3 "responds_with ?l" 10 ?l] a b c d e show ?thesis
    unfolding t h by auto
qed

text \<open>
  Claim C4 as stated fails at the empty password: the list holds a pair whose suffix is the
  suffix of the empty password's hash, and the result is \<open>(False, 0)\<close>; no request is sent.
\<close>

theorem check_breach_empty_counterexample:
  "(drop 5 (sha1_hash []), 7) \<in> set [(''3EE5E6B4B0D3255BFEF95601890AFD80709'', 7)]
   \<and> check_breach (responds_with [(''3EE5E6B4B0D3255BFEF95601890AFD80709'', 7)]) [] 10 3
       = (Inr (Some (False, 0)), [])"
  by (simp add: sha1_hash_empty check_breach_def)

lemma check_breach_empty: "check_breach api [] timeout max_retries = (Inr (Some (False, 0)), [])"
  by (simp add: check_breach_def)

lemma check_breach_default_all_fail:
  "check_breach always_fails ''password'' 10 3 =
     (Inr (Some (False, 0)),
      [Request ''5BAA6'' 10, Sleep 1, Request ''5BAA6'' 10, Sleep 2, Request ''5BAA6'' 10])"
proof -
  have "\<forall>i < 3. isl (always_fails i (take 5 (sha1_hash ''password'')) 10)"
    by (simp add: always_fails_def)
  then have "check_breach always_fails ''password'' 10 (int 3) =
      (Inr (Some (False, 0)), backoff_trace (take 5 (sha1_hash ''password'')) 10 3)"
    by (intro check_breach_all_fail) simp_all
  then show ?thesis
    by (simp add: backoff_trace_def sha1_hash_password upt_rec)
qed

lemma retry_loop_sleep_overflow:
  assumes "k \<le> 34" and "36 \<le> n" and "\<forall>i. k \<le> i \<and> i \<le> 34 \<longrightarrow> isl (api i prefix timeout)"
  shows "fst (retry_loop api prefix suffix timeout (int n) (map int [k..<n])) = Inl OverflowError"
  using assms
proof (induction "34 - k" arbitrary: k)
  case 0
  then have k: "k = 34" by simp
  from 0 obtain e where fail: "api 34 prefix timeout = Inl e"
    by (metis isl_def le_refl k)
  have upt: "[34..<n] = 34 # [35..<n]" using 0 by (simp add: upt_rec)
  have "(2 :: int) ^ 34 > max_sleep_seconds" by (simp add: max_sleep_seconds_def)
  then show ?case using 0 by (simp add: k upt fail Let_def)
next
  case (Suc d)
  then have lt: "k < 34" by simp
  from Suc.prems lt obtain e where fail: "api k prefix timeout = Inl e"
    by (metis isl_def le_refl)
  have upt: "[k..<n] = k # [Suc k..<n]" using lt Suc.prems(2) by (simp add: upt_rec)
  have d: "d = 34 - Suc k" using Suc.hyps(2) by simp
  have rest: "fst (retry_loop api prefix suffix timeout (int n) (map int [Suc k..<n])) = Inl OverflowError"
    using Suc.hyps(1) [OF d] lt Suc.prems by simp
  have "k \<le> 33" using lt by simp
  then have ok: "\<not> (2 :: int) ^ k > max_sleep_seconds" by (rule sleep_allowed)
  have "int k < int n - 1" using lt Suc.prems(2) by linarith
  then show ?case using ok rest by (auto simp: upt fail Let_def split: prod.splits)
qed

lemma check_breach_sleep_overflow:
  "fst (check_breach always_fails ''password'' 10 36) = Inl OverflowError"
proof -
  have "fst (retry_loop always_fails (take 5 (sha1_hash ''password'')) (drop 5 (sha1_hash ''password''))
               10 (int 36) (map int [0..<36])) = Inl OverflowError"
    by (rule retry_loop_sleep_overflow) (simp_all add: always_fails_def)
  then show ?thesis
    using py_range_int [of 36] by (simp add: check_breach_def Let_def)
qed

text \<open>
  Claim C5.  When every request attempt fails, \<open>check_breach\<close> retries up to the configured
  maximum with a sleep of 2 to the power of the attempt number between attempts and then
  returns \<open>(False, 0)\<close> without raising; for the empty password it returns \<open>(False, 0)\<close> and
  sends nothing.  The lemmas \<open>check_breach_all_fail\<close> and \<open>check_breach_empty\<close> show this for
  every maximum from 1 to 35.  For a maximum of 0 the loop body never runs: no request is
  sent and the function ends without a \<open>return\<close>, so the result is \<open>None\<close> and not
  \<open>(False, 0)\<close>.  (From a maximum of 36 on, the sleep after the 35th failed attempt is refused
  by \<open>time.sleep\<close>, lemma \<open>check_breach_sleep_overflow\<close>.)
\<close>

theorem check_breach_zero_retries:
  "check_breach always_fails ''password'' 10 0 = (Inr None, [])"
  by (simp add: check_breach_def py_range_def Let_def)

end
